theory Spec2Isabelle
  imports Main "HOL-Library.AList"
begin

section \<open>Python strings\<close>

text \<open>
  A Python \<open>str\<close> is modelled as a \<open>string\<close> whose characters are the code points
  0 to 255. The character classes below are Python's own on that range:
  \<open>str.isspace\<close>, the class \<open>\w\<close> of \<open>re\<close> on \<open>str\<close> patterns, \<open>str.upper\<close> and
  \<open>str.lower\<close>.
\<close>

definition isspace :: "char \<Rightarrow> bool" where
  "isspace c = (c \<in> set [CHR 0x09, CHR 0x0A, CHR 0x0B, CHR 0x0C, CHR 0x0D, CHR 0x1C, CHR 0x1D,
                          CHR 0x1E, CHR 0x1F, CHR 0x20, CHR 0x85, CHR 0xA0])"

definition is_word_char :: "char \<Rightarrow> bool" where
  "is_word_char c = (let n = (of_char c :: nat) in
     (48 \<le> n \<and> n \<le> 57) \<or> (65 \<le> n \<and> n \<le> 90) \<or> n = 95 \<or> (97 \<le> n \<and> n \<le> 122) \<or>
     n = 170 \<or> n = 178 \<or> n = 179 \<or> n = 181 \<or> n = 185 \<or> n = 186 \<or> (188 \<le> n \<and> n \<le> 190) \<or>
     (192 \<le> n \<and> n \<le> 214) \<or> (216 \<le> n \<and> n \<le> 246) \<or> (248 \<le> n \<and> n \<le> 255))"

definition lowercase_letters :: string where
  "lowercase_letters = ''abcdefghijklmnopqrstuvwxyz'' @
     [CHR 0xE0, CHR 0xE1, CHR 0xE2, CHR 0xE3, CHR 0xE4, CHR 0xE5, CHR 0xE6, CHR 0xE7,
      CHR 0xE8, CHR 0xE9, CHR 0xEA, CHR 0xEB, CHR 0xEC, CHR 0xED, CHR 0xEE, CHR 0xEF,
      CHR 0xF0, CHR 0xF1, CHR 0xF2, CHR 0xF3, CHR 0xF4, CHR 0xF5, CHR 0xF6,
      CHR 0xF8, CHR 0xF9, CHR 0xFA, CHR 0xFB, CHR 0xFC, CHR 0xFD, CHR 0xFE]"

definition uppercase_letters :: string where
  "uppercase_letters = ''ABCDEFGHIJKLMNOPQRSTUVWXYZ'' @
     [CHR 0xC0, CHR 0xC1, CHR 0xC2, CHR 0xC3, CHR 0xC4, CHR 0xC5, CHR 0xC6, CHR 0xC7,
      CHR 0xC8, CHR 0xC9, CHR 0xCA, CHR 0xCB, CHR 0xCC, CHR 0xCD, CHR 0xCE, CHR 0xCF,
      CHR 0xD0, CHR 0xD1, CHR 0xD2, CHR 0xD3, CHR 0xD4, CHR 0xD5, CHR 0xD6,
      CHR 0xD8, CHR 0xD9, CHR 0xDA, CHR 0xDB, CHR 0xDC, CHR 0xDD, CHR 0xDE]"

text \<open>
  \<open>str.upper\<close> sends the sharp s (0xDF) to \<open>SS\<close>. It sends the micro sign (0xB5) and
  the y with diaeresis (0xFF) to code points above 255; the model leaves these two
  characters as they are. The source only asks whether the upper-cased name contains an
  ASCII word, and neither these two characters nor their images occur in such a word.
\<close>

definition upper_char :: "char \<Rightarrow> string" where
  "upper_char c =
     (if c = CHR 0xDF then ''SS''
      else case map_of (zip lowercase_letters uppercase_letters) c of
             Some u \<Rightarrow> [u]
           | None \<Rightarrow> [c])"

definition lower_char :: "char \<Rightarrow> char" where
  "lower_char c =
     (case map_of (zip uppercase_letters lowercase_letters) c of
        Some l \<Rightarrow> l
      | None \<Rightarrow> c)"

definition upper :: "string \<Rightarrow> string" where
  "upper s = concat (map upper_char s)"

definition lower :: "string \<Rightarrow> string" where
  "lower s = map lower_char s"

text \<open>\<open>s.strip()\<close>, and \<open>s.strip(chars)\<close>, which removes every leading and trailing
  character that belongs to \<open>chars\<close>.\<close>

definition lstrip :: "string \<Rightarrow> string" where
  "lstrip s = dropWhile isspace s"

definition rstrip :: "string \<Rightarrow> string" where
  "rstrip s = rev (dropWhile isspace (rev s))"

definition strip :: "string \<Rightarrow> string" where
  "strip s = rstrip (lstrip s)"

definition strip_chars :: "string \<Rightarrow> string \<Rightarrow> string" where
  "strip_chars s chars =
     rev (dropWhile (\<lambda>c. c \<in> set chars) (rev (dropWhile (\<lambda>c. c \<in> set chars) s)))"

fun startswith :: "string \<Rightarrow> string \<Rightarrow> bool" where
  "startswith s [] = True"
| "startswith [] (p # ps) = False"
| "startswith (c # cs) (p # ps) = (c = p \<and> startswith cs ps)"

definition endswith :: "string \<Rightarrow> string \<Rightarrow> bool" where
  "endswith s p = startswith (rev s) (rev p)"

text \<open>
  \<open>find_split sep s\<close> cuts \<open>s\<close> at the first occurrence of the non-empty text \<open>sep\<close>:
  it is \<open>s.split(sep, 1)\<close> when that has two parts, and \<open>None\<close> when \<open>sep\<close> does not occur
  (\<open>s.split(sep, 1)\<close> is then \<open>[s]\<close>). \<open>contains s sub\<close> is \<open>sub in s\<close>.
\<close>

fun find_split :: "string \<Rightarrow> string \<Rightarrow> (string \<times> string) option" where
  "find_split sep [] = None"
| "find_split sep (c # cs) =
     (if startswith (c # cs) sep then Some ([], drop (length sep) (c # cs))
      else map_option (\<lambda>(a, b). (c # a, b)) (find_split sep cs))"

definition contains :: "string \<Rightarrow> string \<Rightarrow> bool" where
  "contains s sub = (find_split sub s \<noteq> None)"

text \<open>\<open>s.split(sep)\<close> for a separator of one character; the empty text gives \<open>['']\<close>.\<close>

fun split_char :: "char \<Rightarrow> string \<Rightarrow> string list" where
  "split_char sep [] = [[]]"
| "split_char sep (c # cs) =
     (if c = sep then [] # split_char sep cs
      else (case split_char sep cs of
              [] \<Rightarrow> [[c]]
            | x # xs \<Rightarrow> (c # x) # xs))"

section \<open>Input rows\<close>

text \<open>
  A value of a row, as \<open>pandas\<close> or \<open>json\<close> delivers it: a string, or any other object
  (a number, \<open>None\<close>, a NaN for an empty cell), of which the generator uses the text
  \<open>str()\<close> gives and the truth value. A row is a dictionary read with \<open>get\<close> only.
\<close>

datatype pyval = PStr string | PObj string bool

fun py_str :: "pyval \<Rightarrow> string" where
  "py_str (PStr s) = s"
| "py_str (PObj text truth) = text"

fun truthy :: "pyval \<Rightarrow> bool" where
  "truthy (PStr s) = (s \<noteq> [])"
| "truthy (PObj text truth) = truth"

type_synonym row = "string \<rightharpoonup> pyval"

definition get :: "row \<Rightarrow> string \<Rightarrow> pyval \<Rightarrow> pyval" where
  "get item key dflt = (case item key of None \<Rightarrow> dflt | Some v \<Rightarrow> v)"

datatype error = AttributeError | TypeError | OSError

section \<open>The transform clause parser\<close>

text \<open>
  The value of a key of \<open>mappings\<close>: \<open>dest_field\<close>, and \<open>value_maps\<close> when the clause had
  a \<open>(MAP:\<close> part (\<open>None\<close> stands for a dictionary without the key \<open>value_maps\<close>).
  Dictionaries that the source iterates are association lists in insertion order;
  \<open>d[k] = v\<close> is \<open>AList.update k v d\<close>, which keeps the place of a key already present.
\<close>

record column_transform =
  dest_field :: string
  value_maps :: "(string \<times> string) list option"

type_synonym mappings = "(string \<times> column_transform) list"

text \<open>The body of the loop over the characters of \<open>transformations_str\<close>; the state is
  \<open>(transformations, temp, map_depth)\<close>.\<close>

definition split_step :: "char \<Rightarrow> string list \<times> string \<times> nat \<Rightarrow> string list \<times> string \<times> nat" where
  "split_step char st =
     (case st of (transformations, temp, map_depth) \<Rightarrow>
        let map_depth' =
              (if char = CHR ''('' \<and> contains temp ''MAP:'' then map_depth + 1
               else if char = CHR '')'' \<and> map_depth > 0 then map_depth - 1
               else map_depth)
        in if char = CHR '','' \<and> map_depth' = 0
           then (transformations @ [strip temp], [], map_depth')
           else (transformations, temp @ [char], map_depth'))"

definition split_transformations :: "string \<Rightarrow> string list" where
  "split_transformations transformations_str =
     (case fold split_step transformations_str ([], [], 0) of
        (transformations, temp, map_depth) \<Rightarrow>
          if temp \<noteq> [] then transformations @ [strip temp] else transformations)"

text \<open>The body of the loop over \<open>map_items\<close>.\<close>

definition parse_value_item :: "string \<Rightarrow> (string \<times> string) list \<Rightarrow> (string \<times> string) list" where
  "parse_value_item item vmap =
     (case find_split ''->'' item of
        None \<Rightarrow> vmap
      | Some (l, r) \<Rightarrow>
          let src_val = strip_chars (strip l) [CHR 0x27, CHR 0x22];
              dest_val = strip_chars (strip r) [CHR 0x27, CHR 0x22]
          in AList.update src_val dest_val vmap)"

text \<open>The body of the loop over \<open>transformations\<close>.\<close>

definition apply_transform :: "string \<Rightarrow> mappings \<Rightarrow> mappings" where
  "apply_transform transform mappings =
     (case find_split ''->'' transform of
        None \<Rightarrow> mappings
      | Some (l, r) \<Rightarrow>
          let src_field = strip l;
              dest_part = strip r
          in (case find_split ''(MAP:'' dest_part of
                Some (d, m) \<Rightarrow>
                  let dest = strip d;
                      map_part = (if endswith m '')'' then strip (butlast m) else m);
                      vmap = fold parse_value_item (split_char CHR '','' map_part) []
                  in AList.update src_field \<lparr>dest_field = dest, value_maps = Some vmap\<rparr> mappings
              | None \<Rightarrow>
                  AList.update src_field \<lparr>dest_field = dest_part, value_maps = None\<rparr> mappings))"

fun process_transformations :: "pyval \<Rightarrow> mappings" where
  "process_transformations (PObj text truth) = []"
| "process_transformations (PStr transformations_str) =
     (if transformations_str = [] then []
      else fold apply_transform (split_transformations transformations_str) [])"

section \<open>The related-insert directive parser\<close>

record related_insert =
  ri_type :: string
  ri_target_table :: string
  ri_key_column :: string
  ri_value_column :: string

text \<open>
  \<open>re.search(r'\(([^)]+)\)', s)\<close>: the group of the leftmost match, that is, at the
  first \<open>(\<close> that is followed by at least one character other than \<open>)\<close> and then by a
  \<open>)\<close>, the characters between the two.
\<close>

fun search_key :: "string \<Rightarrow> string option" where
  "search_key [] = None"
| "search_key (c # cs) =
     (if c = CHR ''('' \<and> takeWhile (\<lambda>x. x \<noteq> CHR '')'') cs \<noteq> []
           \<and> dropWhile (\<lambda>x. x \<noteq> CHR '')'') cs \<noteq> []
      then Some (takeWhile (\<lambda>x. x \<noteq> CHR '')'') cs)
      else search_key cs)"

text \<open>The body of the loop over \<open>instructions\<close>, after the instruction has been stripped;
  \<open>None\<close> when nothing is appended. Nothing inside the \<open>try\<close> raises on a string.\<close>

definition parse_instruction :: "string \<Rightarrow> related_insert option" where
  "parse_instruction instruction =
     (if instruction = [] then None
      else if startswith instruction ''KEY:'' then
        (let after_key = drop 4 instruction in
         case find_split ''('' after_key of
           None \<Rightarrow> None
         | Some (p0, p1) \<Rightarrow>
             let target_table = strip p0;
                 key_value_part = CHR ''('' # p1
             in (case search_key key_value_part of
                   None \<Rightarrow> None
                 | Some g \<Rightarrow>
                     let key_column = strip g
                     in (case find_split '')'' key_value_part of
                           None \<Rightarrow> None
                         | Some (a0, a1) \<Rightarrow>
                             let value_column = strip a1;
                                 value_column' =
                                   (if startswith value_column '':''
                                    then strip (tl value_column) else value_column)
                             in if key_column \<noteq> [] \<and> value_column' \<noteq> []
                                then Some \<lparr>ri_type = ''KEY'', ri_target_table = target_table,
                                       ri_key_column = key_column,
                                       ri_value_column = value_column'\<rparr>
                                else None)))
      else None)"

fun process_related_inserts :: "pyval \<Rightarrow> related_insert list" where
  "process_related_inserts (PObj text truth) = []"
| "process_related_inserts (PStr related_inserts_str) =
     (if related_inserts_str = [] then []
      else List.map_filter (\<lambda>instruction. parse_instruction (strip instruction))
             (split_char CHR '','' related_inserts_str))"

section \<open>The script generator\<close>

subsection \<open>Column lists\<close>

text \<open>\<open>item.get(key, '').split(',') if isinstance(item.get(key, ''), str) else []\<close>\<close>

fun split_columns :: "pyval \<Rightarrow> string list" where
  "split_columns (PStr s) = split_char CHR '','' s"
| "split_columns (PObj text truth) = []"

text \<open>\<open>[col.strip() for col in columns if col.strip()]\<close>\<close>

definition clean_columns :: "string list \<Rightarrow> string list" where
  "clean_columns columns = map strip (filter (\<lambda>col. strip col \<noteq> []) columns)"

definition resolve_source_columns :: "row \<Rightarrow> string list" where
  "resolve_source_columns item =
     (let source_columns = clean_columns (split_columns (get item ''source_columns'' (PStr [])))
      in if source_columns = [] then [''ID'', ''COLUMN1'', ''COLUMN2'', ''CREATED_DATE'']
         else source_columns)"

definition resolve_target_columns :: "row \<Rightarrow> mappings \<Rightarrow> string list \<Rightarrow> string list" where
  "resolve_target_columns item transformations source_columns =
     (let target_columns = clean_columns (split_columns (get item ''target_columns'' (PStr [])))
      in if target_columns = [] \<and> source_columns \<noteq> []
         then map (\<lambda>src_col. case map_of transformations src_col of
                                Some t \<Rightarrow> dest_field t
                              | None \<Rightarrow> src_col) source_columns
         else target_columns)"

subsection \<open>The type of a column of the record\<close>

text \<open>The \<open>if\<close> chain that chooses the data type of a column of \<open>t_source_rec\<close> from its
  name.\<close>

definition infer_type :: "string \<Rightarrow> string" where
  "infer_type col =
     (if contains (upper col) ''ID'' \<or> endswith (upper col) ''_ID'' then ''NUMBER''
      else if contains (upper col) ''DATE'' \<or> contains (upper col) ''TIME'' then ''DATE''
      else if contains (upper col) ''AMOUNT'' \<or> contains (upper col) ''PRICE''
              \<or> contains (upper col) ''COST'' then ''NUMBER''
      else ''VARCHAR2(4000)'')"

subsection \<open>The text of a unit\<close>

text \<open>
  Each loop that appends to \<open>code\<close> is the list of the pieces it appends, one for each
  iteration that appends something; \<open>code\<close> receives their concatenation. The test
  \<open>i < len(columns) - 1\<close> of the source is written \<open>i + 1 < length columns\<close>.
\<close>

definition record_fields :: "string list \<Rightarrow> string list" where
  "record_fields source_columns =
     map (\<lambda>(i, col). ''      '' @ strip col @ '' '' @ infer_type col
            @ (if i + 1 < length source_columns then '','' else []) @ ''\<newline>'')
         (enumerate 0 source_columns)"

definition select_columns :: "string list \<Rightarrow> string list" where
  "select_columns source_columns =
     map (\<lambda>(i, col). ''      '' @ strip col
            @ (if i + 1 < length source_columns then '','' else []) @ ''\<newline>'')
         (enumerate 0 source_columns)"

definition insert_columns :: "string list \<Rightarrow> string list" where
  "insert_columns target_columns =
     map (\<lambda>(i, col). ''          '' @ strip col
            @ (if i + 1 < length target_columns then '','' else []) @ ''\<newline>'')
         (enumerate 0 target_columns)"

text \<open>The expression written for a source column in the \<open>VALUES\<close> list.\<close>

definition case_expression :: "string \<Rightarrow> (string \<times> string) list \<Rightarrow> string" where
  "case_expression src_col vmap =
     ''CASE v_source_data(i).'' @ src_col @ ''\<newline>''
     @ concat (map (\<lambda>(src_val, dest_val).
                 ''            WHEN '' @ [CHR 0x27] @ src_val @ [CHR 0x27] @ '' THEN '' @ dest_val
                 @ ''\<newline>'') vmap)
     @ ''            ELSE v_source_data(i).'' @ src_col @ ''\<newline>          END''"

definition value_expression :: "mappings \<Rightarrow> string \<Rightarrow> string" where
  "value_expression transformations src_col =
     (case map_of transformations src_col of
        None \<Rightarrow> ''v_source_data(i).'' @ src_col
      | Some t \<Rightarrow>
          (case value_maps t of
             Some vmap \<Rightarrow> case_expression src_col vmap
           | None \<Rightarrow> ''v_source_data(i).'' @ src_col))"

definition insert_value :: "mappings \<Rightarrow> string list \<Rightarrow> nat \<times> string \<Rightarrow> string option" where
  "insert_value transformations target_columns =
     (\<lambda>(i, src_col).
        if i < length target_columns
        then Some (''          '' @ value_expression transformations (strip src_col)
                   @ (if i + 1 < length target_columns then '','' else []) @ ''\<newline>'')
        else None)"

definition insert_values :: "mappings \<Rightarrow> string list \<Rightarrow> string list \<Rightarrow> string list" where
  "insert_values transformations source_columns target_columns =
     List.map_filter (insert_value transformations target_columns) (enumerate 0 source_columns)"

text \<open>The block written for one related insert, and the loop around the blocks.\<close>

definition related_insert_code :: "related_insert \<Rightarrow> string" where
  "related_insert_code ri =
     (if ri_type ri = ''KEY'' then concat [
      ''        -- Insert/update record in '' @ ri_target_table ri @ '' lookup table\<newline>'',
      ''        BEGIN\<newline>'',
      ''          MERGE INTO '' @ ri_target_table ri @ '' t\<newline>'',
      ''          USING (SELECT v_source_data(i).'' @ ri_key_column ri @ '' as key_val, \<newline>'',
      ''                       v_source_data(i).'' @ ri_value_column ri @ '' as value_val \<newline>'',
      ''                 FROM dual) s\<newline>'',
      ''          ON (t.migrt_key = s.key_val)\<newline>'',
      ''          WHEN MATCHED THEN\<newline>'',
      ''            UPDATE SET t.migrt_value = s.value_val\<newline>'',
      ''          WHEN NOT MATCHED THEN\<newline>'',
      ''            INSERT (migrt_key, migrt_value)\<newline>'',
      ''            VALUES (s.key_val, s.value_val);\<newline>'',
      ''          \<newline>'',
      ''          DBMS_OUTPUT.PUT_LINE('Processed lookup record for key: ' || v_source_data(i).'' @ ri_key_column ri @ '');\<newline>'',
      ''        EXCEPTION\<newline>'',
      ''          WHEN OTHERS THEN\<newline>'',
      ''            v_error_message := SQLERRM;\<newline>'',
      ''            DBMS_OUTPUT.PUT_LINE('Error during related insert to '' @ ri_target_table ri @ '': ' || v_error_message);\<newline>'',
      ''            -- Continue with the migration process\<newline>'',
      ''        END;\<newline>'']
      else [])"

definition related_inserts_code :: "related_insert list \<Rightarrow> string" where
  "related_inserts_code related_inserts =
     (if related_inserts \<noteq> [] then concat [
      ''      -- First, process related inserts for each record\<newline>'',
      ''      FOR i IN 1..v_source_data.COUNT LOOP\<newline>'',
      concat (map related_insert_code related_inserts),
      ''      END LOOP;\<newline>'',
      ''      \<newline>'',
      ''      -- Commit the related inserts\<newline>'',
      ''      COMMIT;\<newline>'',
      ''      DBMS_OUTPUT.PUT_LINE('Related records committed successfully.');\<newline>'',
      ''      \<newline>'']
      else [])"

text \<open>
  The text of a unit, in the order in which the source appends it, in three parts: what
  comes before the insert statement, the insert statement (from its comment line to the
  line that closes the \<open>VALUES\<close> list), and what comes after it.
\<close>

definition unit_prologue ::
  "pyval \<Rightarrow> string \<Rightarrow> string \<Rightarrow> string list \<Rightarrow> pyval \<Rightarrow> related_insert list \<Rightarrow> string" where
  "unit_prologue source_table target_table package_name source_columns where_condition
     related_inserts = concat [
      ''\<newline>'',
      ''SET SERVEROUTPUT ON;\<newline>'',
      ''\<newline>'',
      ''-- Data migration package for '' @ py_str source_table @ '' to '' @ target_table @ ''\<newline>'',
      ''CREATE OR REPLACE PACKAGE '' @ package_name @ '' AS\<newline>'',
      ''  -- Main migration procedure\<newline>'',
      ''  PROCEDURE migrate_data;\<newline>'',
      ''END '' @ package_name @ '';\<newline>'',
      ''/\<newline>'',
      ''\<newline>'',
      ''CREATE OR REPLACE PACKAGE BODY '' @ package_name @ '' AS\<newline>'',
      ''  -- Variables declaration\<newline>'',
      ''  v_error_message VARCHAR2(4000);\<newline>'',
      ''  v_count NUMBER;\<newline>'',
      ''  \<newline>'',
      ''  -- Migration procedure\<newline>'',
      ''  PROCEDURE migrate_data IS\<newline>'',
      ''    -- Type definitions for bulk collect\<newline>'',
      ''    TYPE t_source_rec IS RECORD (\<newline>'',
      concat (record_fields source_columns),
      ''    );\<newline>'',
      ''    TYPE t_source_tab IS TABLE OF t_source_rec;\<newline>'',
      ''    v_source_data t_source_tab;\<newline>'',
      ''  BEGIN\<newline>'',
      ''    -- Display start message\<newline>'',
      ''    DBMS_OUTPUT.PUT_LINE('Starting migration from '',
      py_str source_table @ '' to '' @ target_table @ '': ' || TO_CHAR(SYSDATE, 'DD-MON-YYYY HH24:MI:SS'));\<newline>'',
      ''\<newline>'',
      ''    -- Retrieve data from source table\<newline>'',
      ''    SELECT \<newline>'',
      concat (select_columns source_columns),
      ''    BULK COLLECT INTO v_source_data\<newline>'',
      ''    FROM '' @ py_str source_table,
      (if truthy where_condition
       then ''\<newline>'' @ ''    WHERE '' @ py_str where_condition else []),
      ''    ;\<newline>'',
      ''    \<newline>'',
      ''    -- Number of records found\<newline>'',
      ''    v_count := v_source_data.COUNT;\<newline>'',
      ''    DBMS_OUTPUT.PUT_LINE('Found ' || v_count || ' records to migrate.');\<newline>'',
      ''    \<newline>'',
      ''    -- If records found, process them\<newline>'',
      ''    IF v_count > 0 THEN\<newline>'',
      related_inserts_code related_inserts]"

definition insert_statement :: "string \<Rightarrow> string list \<Rightarrow> string list \<Rightarrow> mappings \<Rightarrow> string" where
  "insert_statement target_table source_columns target_columns transformations = concat [
      ''      -- Now, insert into the main target table\<newline>'',
      ''      FORALL i IN 1..v_source_data.COUNT\<newline>'',
      ''        INSERT INTO '' @ target_table @ '' (\<newline>'',
      concat (insert_columns target_columns),
      ''        ) VALUES (\<newline>'',
      concat (insert_values transformations source_columns target_columns),
      ''        );\<newline>'']"

definition unit_epilogue :: "string \<Rightarrow> string" where
  "unit_epilogue package_name = concat [
      ''        \<newline>'',
      ''      DBMS_OUTPUT.PUT_LINE('Inserted ' || SQL%ROWCOUNT || ' records into main table.');\<newline>'',
      ''      COMMIT;\<newline>'',
      ''      DBMS_OUTPUT.PUT_LINE('Main table data committed successfully.');\<newline>'',
      ''    ELSE\<newline>'',
      ''      DBMS_OUTPUT.PUT_LINE('No records to migrate.');\<newline>'',
      ''    END IF;\<newline>'',
      ''    \<newline>'',
      ''    DBMS_OUTPUT.PUT_LINE('Migration completed: ' || TO_CHAR(SYSDATE, 'DD-MON-YYYY HH24:MI:SS'));\<newline>'',
      ''  EXCEPTION\<newline>'',
      ''    WHEN OTHERS THEN\<newline>'',
      ''      v_error_message := SQLERRM;\<newline>'',
      ''      DBMS_OUTPUT.PUT_LINE('Error during migration: ' || v_error_message);\<newline>'',
      ''      ROLLBACK;\<newline>'',
      ''      RAISE;\<newline>'',
      ''  END migrate_data;\<newline>'',
      ''END '',
      package_name @ '';\<newline>'',
      ''/\<newline>'',
      ''\<newline>'',
      ''-- Execute migration\<newline>'',
      ''BEGIN\<newline>'',
      ''  '' @ package_name @ ''.migrate_data;\<newline>'',
      ''END;\<newline>'',
      ''/\<newline>'']"

definition unit_code ::
  "pyval \<Rightarrow> string \<Rightarrow> string \<Rightarrow> string list \<Rightarrow> string list \<Rightarrow> pyval \<Rightarrow> mappings
     \<Rightarrow> related_insert list \<Rightarrow> string" where
  "unit_code source_table target_table package_name source_columns target_columns
     where_condition transformations related_inserts =
     unit_prologue source_table target_table package_name source_columns where_condition
       related_inserts
     @ insert_statement target_table source_columns target_columns transformations
     @ unit_epilogue package_name"

subsection \<open>The units of a batch\<close>

text \<open>
  An entry of \<open>scripts\<close>. The target table of an entry is a string: \<open>target_table.lower()\<close>
  has raised \<open>AttributeError\<close> before the entry is built when the row holds another
  object there. The source table is kept as the row gives it.
\<close>

record script =
  sc_filename :: string
  sc_code :: string
  sc_source_table :: pyval
  sc_target_table :: string

text \<open>The body of the loop over \<open>mapping_data\<close>.\<close>

definition generate_script :: "row \<Rightarrow> error + script" where
  "generate_script item =
     (let source_table = get item ''source_table'' (PStr ''unknown_source'');
          target_table = get item ''target_table'' (PStr ''unknown_target'');
          where_condition = get item ''where_condition'' (PStr []);
          transformations = process_transformations (get item ''transformations'' (PStr []));
          related_inserts = process_related_inserts (get item ''related_inserts'' (PStr []));
          source_columns = resolve_source_columns item;
          target_columns = resolve_target_columns item transformations source_columns
      in case target_table of
           PObj text truth \<Rightarrow> Inl AttributeError
         | PStr target \<Rightarrow>
             let package_name = ''migrt_'' @ lower target
             in Inr \<lparr>sc_filename = package_name @ ''.sql'',
                     sc_code = unit_code source_table target package_name source_columns
                                 target_columns where_condition transformations related_inserts,
                     sc_source_table = source_table,
                     sc_target_table = target\<rparr>)"

fun generate_scripts :: "row list \<Rightarrow> error + script list" where
  "generate_scripts [] = Inr []"
| "generate_scripts (item # mapping_data) =
     (case generate_script item of
        Inl e \<Rightarrow> Inl e
      | Inr script \<Rightarrow>
          (case generate_scripts mapping_data of
             Inl e \<Rightarrow> Inl e
           | Inr scripts \<Rightarrow> Inr (script # scripts)))"

subsection \<open>The controller script\<close>

text \<open>The decimal text of a number, as an f-string writes \<open>i+1\<close>.\<close>

fun str_nat :: "nat \<Rightarrow> string" where
  "str_nat n =
     (if n < 10 then [''0123456789'' ! n]
      else str_nat (n div 10) @ [''0123456789'' ! (n mod 10)])"

declare str_nat.simps [simp del]

text \<open>What the loop over \<open>enumerate(scripts)\<close> appends for one unit.\<close>

definition main_call :: "nat \<Rightarrow> nat \<times> script \<Rightarrow> string" where
  "main_call n = (\<lambda>(i, script).
     let package_name = ''migrt_'' @ lower (sc_target_table script)
     in concat [
      ''  -- Migration '' @ str_nat (i + 1) @ '': '' @ py_str (sc_source_table script) @ '' to '' @ sc_target_table script @ ''\<newline>'',
      ''  BEGIN\<newline>'',
      ''    '' @ package_name @ ''.migrate_data;\<newline>'',
      ''    DBMS_OUTPUT.PUT_LINE('' @ [CHR 0x27, CHR 0x27] @ '');\<newline>'',
      ''  EXCEPTION\<newline>'',
      ''    WHEN OTHERS THEN\<newline>'',
      ''      DBMS_OUTPUT.PUT_LINE('Error in '' @ package_name @ '': ' || SQLERRM);\<newline>'',
      ''      DBMS_OUTPUT.PUT_LINE('' @ [CHR 0x27, CHR 0x27] @ '');\<newline>'',
      ''  END;\<newline>'',
      (if i + 1 < n then ''\<newline>'' else [])])"

definition main_script :: "script list \<Rightarrow> string" where
  "main_script scripts = concat [
      ''\<newline>'',
      ''SET SERVEROUTPUT ON;\<newline>'',
      ''\<newline>'',
      ''-- Main migration controller\<newline>'',
      ''BEGIN\<newline>'',
      ''  DBMS_OUTPUT.PUT_LINE('=== DATA MIGRATION START: ' || TO_CHAR(SYSDATE, 'DD-MON-YYYY HH24:MI:SS') || ' ===');\<newline>'',
      ''  DBMS_OUTPUT.PUT_LINE('' @ [CHR 0x27, CHR 0x27] @ '');\<newline>'',
      ''\<newline>'',
      concat (map (main_call (length scripts)) (enumerate 0 scripts)),
      ''\<newline>'',
      ''  DBMS_OUTPUT.PUT_LINE('=== DATA MIGRATION END: ' || TO_CHAR(SYSDATE, 'DD-MON-YYYY HH24:MI:SS') || ' ===');\<newline>'',
      ''END;\<newline>'',
      ''/\<newline>'']"

text \<open>\<open>scripts\<close> when the files are about to be saved: the units of the rows, then the
  controller.\<close>

definition build_scripts :: "row list \<Rightarrow> error + script list" where
  "build_scripts mapping_data =
     (case generate_scripts mapping_data of
        Inl e \<Rightarrow> Inl e
      | Inr scripts \<Rightarrow>
          Inr (scripts @ [\<lparr>sc_filename = ''migrate_all.sql'', sc_code = main_script scripts,
                           sc_source_table = PStr ''ALL'', sc_target_table = ''ALL''\<rparr>]))"

subsection \<open>Saving the units\<close>

text \<open>
  \<open>re.sub(r'[^\w]', '_', name)\<close>; it raises \<open>TypeError\<close> on an object that is not a string.
  The time stamp of the batch is a parameter. So is the file system: \<open>fs path\<close> tells
  whether \<open>open(path, 'w')\<close> and the write that follows succeed; when they do not (a file
  name that is too long, a full disk) the source raises \<open>OSError\<close>. Reading the old index is
  inside a \<open>try\<close> and never raises. The model gives the value that the function returns,
  or the exception that ends it; the files already written at that moment are not part
  of it.
\<close>

definition sanitize :: "string \<Rightarrow> string" where
  "sanitize name = map (\<lambda>c. if is_word_char c then c else CHR ''_'') name"

record file_info =
  fi_filename :: string
  fi_source_table :: pyval
  fi_target_table :: string
  fi_timestamp :: string

text \<open>The body of the loop over \<open>scripts\<close> that saves the files.\<close>

definition save_script :: "(string \<Rightarrow> bool) \<Rightarrow> string \<Rightarrow> script \<Rightarrow> error + file_info" where
  "save_script fs timestamp script =
     (case (if sc_source_table script = PStr ''ALL'' \<and> sc_target_table script = ''ALL''
            then Inr (timestamp @ ''_migrate_all.sql'')
            else (case sc_source_table script of
                    PObj text truth \<Rightarrow> Inl TypeError
                  | PStr source \<Rightarrow>
                      let source_name = sanitize source;
                          target_name = sanitize (sc_target_table script)
                      in Inr (timestamp @ ''_'' @ source_name @ ''_to_'' @ target_name @ ''.sql'')))
      of Inl e \<Rightarrow> Inl e
       | Inr filename \<Rightarrow>
           if fs (''generated_code/'' @ filename)
           then Inr \<lparr>fi_filename = filename, fi_source_table = sc_source_table script,
                     fi_target_table = sc_target_table script, fi_timestamp = timestamp\<rparr>
           else Inl OSError)"

fun save_scripts :: "(string \<Rightarrow> bool) \<Rightarrow> string \<Rightarrow> script list \<Rightarrow> error + file_info list" where
  "save_scripts fs timestamp [] = Inr []"
| "save_scripts fs timestamp (script # scripts) =
     (case save_script fs timestamp script of
        Inl e \<Rightarrow> Inl e
      | Inr file_info \<Rightarrow>
          (case save_scripts fs timestamp scripts of
             Inl e \<Rightarrow> Inl e
           | Inr saved_files \<Rightarrow> Inr (file_info # saved_files)))"

definition generate_fallback_code ::
  "(string \<Rightarrow> bool) \<Rightarrow> string \<Rightarrow> row list \<Rightarrow> error + file_info list" where
  "generate_fallback_code fs timestamp mapping_data =
     (case build_scripts mapping_data of
        Inl e \<Rightarrow> Inl e
      | Inr scripts \<Rightarrow>
          (case save_scripts fs timestamp scripts of
             Inl e \<Rightarrow> Inl e
           | Inr saved_files \<Rightarrow>
               if fs ''generated_code/file_index.json'' then Inr saved_files else Inl OSError))"

section \<open>Notions used to state the claims\<close>

text \<open>
  \<open>join sep items\<close> is \<open>sep.join(items)\<close>, the text that \<open>split\<close> cuts back into \<open>items\<close>:
  it says what a comma-separated list of pairs looks like.
\<close>

fun join :: "string \<Rightarrow> string list \<Rightarrow> string" where
  "join sep [] = []"
| "join sep [x] = x"
| "join sep (x # y # ys) = x @ sep @ join sep (y # ys)"

text \<open>
  The stripping of quotes as the specification words it, to be compared with
  \<open>strip_chars\<close> of the source: a single layer of surrounding quote characters, single or
  double, is removed, that is, one quote character at the front when there is one, and
  one at the end when there is one.
\<close>

definition spec_strip_one_quote_layer :: "string \<Rightarrow> string" where
  "spec_strip_one_quote_layer s =
     (let s1 = (if s \<noteq> [] \<and> hd s \<in> {CHR 0x27, CHR 0x22} then tl s else s)
      in if s1 \<noteq> [] \<and> last s1 \<in> {CHR 0x27, CHR 0x22} then butlast s1 else s1)"

section \<open>Facts about the string operations\<close>

lemma startswith_iff: "startswith s p \<longleftrightarrow> (\<exists>r. s = p @ r)"
  by (induction s p rule: startswith.induct) auto

lemma endswith_iff: "endswith s p \<longleftrightarrow> (\<exists>a. s = a @ p)"
proof -
  have "endswith s p \<longleftrightarrow> (\<exists>r. rev s = rev p @ r)"
    by (simp add: endswith_def startswith_iff)
  also have "\<dots> \<longleftrightarrow> (\<exists>a. s = a @ p)"
  proof
    assume "\<exists>r. rev s = rev p @ r"
    then obtain r where "rev s = rev p @ r" ..
    then have "s = rev r @ p" by (metis rev_append rev_rev_ident)
    then show "\<exists>a. s = a @ p" ..
  next
    assume "\<exists>a. s = a @ p"
    then obtain a where "s = a @ p" ..
    then have "rev s = rev p @ rev a" by simp
    then show "\<exists>r. rev s = rev p @ r" ..
  qed
  finally show ?thesis .
qed

lemma find_split_Some: "find_split sep s = Some (a, b) \<Longrightarrow> s = a @ sep @ b"
proof (induction s arbitrary: a)
  case Nil
  then show ?case by simp
next
  case (Cons c cs)
  show ?case
  proof (cases "startswith (c # cs) sep")
    case True
    then obtain r where r: "c # cs = sep @ r" by (auto simp: startswith_iff)
    from True Cons.prems have "a = []" "b = drop (length sep) (c # cs)" by auto
    with r show ?thesis by simp
  next
    case False
    with Cons.prems obtain a' where "find_split sep cs = Some (a', b)" "a = c # a'"
      by (auto split: prod.splits)
    with Cons.IH show ?thesis by simp
  qed
qed

lemma find_split_None: "sep \<noteq> [] \<Longrightarrow> find_split sep s = None \<Longrightarrow> s \<noteq> a @ sep @ b"
proof (induction s arbitrary: a)
  case Nil
  then show ?case by simp
next
  case (Cons c cs)
  from Cons.prems have ns: "\<not> startswith (c # cs) sep" and rec: "find_split sep cs = None"
    by (auto split: if_splits)
  show ?case
  proof (cases a)
    case Nil
    with ns show ?thesis by (auto simp: startswith_iff)
  next
    case (Cons x xs)
    with Cons.IH[OF Cons.prems(1) rec, of xs] show ?thesis by auto
  qed
qed

lemma contains_iff: "sub \<noteq> [] \<Longrightarrow> contains s sub \<longleftrightarrow> (\<exists>a b. s = a @ sub @ b)"
  unfolding contains_def
  by (metis find_split_None find_split_Some not_Some_eq prod.exhaust)

subsection \<open>Upper and lower case\<close>

lemma letters_length: "length lowercase_letters = length uppercase_letters"
  by (simp add: lowercase_letters_def uppercase_letters_def)

lemma distinct_lowercase: "distinct lowercase_letters"
  by (simp add: lowercase_letters_def)

lemma distinct_uppercase: "distinct uppercase_letters"
  by (simp add: uppercase_letters_def)

lemma letters_disjoint: "set lowercase_letters \<inter> set uppercase_letters = {}"
  by (simp add: lowercase_letters_def uppercase_letters_def)

lemma sharp_s_no_letter: "CHR 0xDF \<notin> set lowercase_letters" "CHR 0xDF \<notin> set uppercase_letters"
  by (simp_all add: lowercase_letters_def uppercase_letters_def)

lemma S_uppercase: "CHR ''S'' \<in> set uppercase_letters"
  by (simp add: uppercase_letters_def)

lemma map_of_zip_swap:
  assumes "distinct ys" "length xs = length ys" "map_of (zip xs ys) x = Some y"
  shows "map_of (zip ys xs) y = Some x"
proof -
  from assms(3) have "(x, y) \<in> set (zip xs ys)" by (rule map_of_SomeD)
  then have "(y, x) \<in> set (zip ys xs)" by (metis in_set_zip fst_conv snd_conv)
  moreover have "distinct (map fst (zip ys xs))" using assms(1,2) by simp
  ultimately show ?thesis by (rule map_of_is_SomeI[rotated])
qed

lemma upper_char_uppercase: "c \<in> set uppercase_letters \<Longrightarrow> upper_char c = [c]"
proof -
  assume c: "c \<in> set uppercase_letters"
  then have "c \<notin> set lowercase_letters" using letters_disjoint by auto
  then have "map_of (zip lowercase_letters uppercase_letters) c = None"
    by (simp add: letters_length)
  moreover from c have "c \<noteq> CHR 0xDF" using sharp_s_no_letter by auto
  ultimately show ?thesis by (simp add: upper_char_def)
qed

lemma upper_char_cases:
  obtains "c = CHR 0xDF" "upper_char c = ''SS''"
  | u where "c \<in> set lowercase_letters" "u \<in> set uppercase_letters" "upper_char c = [u]"
      "map_of (zip lowercase_letters uppercase_letters) c = Some u"
  | "c \<noteq> CHR 0xDF" "c \<notin> set lowercase_letters" "upper_char c = [c]"
proof (cases "c = CHR 0xDF")
  case True
  then show ?thesis using that(1) by (simp add: upper_char_def)
next
  case False
  show ?thesis
  proof (cases "map_of (zip lowercase_letters uppercase_letters) c")
    case None
    then have "c \<notin> set lowercase_letters" by (simp add: letters_length)
    with False None show ?thesis using that(3) by (simp add: upper_char_def)
  next
    case (Some u)
    then have "(c, u) \<in> set (zip lowercase_letters uppercase_letters)" by (rule map_of_SomeD)
    then have "c \<in> set lowercase_letters" "u \<in> set uppercase_letters"
      by (auto dest: set_zip_leftD set_zip_rightD)
    with False Some show ?thesis using that(2) by (simp add: upper_char_def)
  qed
qed

lemma upper_upper_char: "upper (upper_char c) = upper_char c"
proof (cases c rule: upper_char_cases)
  case 1
  then show ?thesis by (simp add: upper_def upper_char_uppercase[OF S_uppercase])
next
  case (2 u)
  then show ?thesis by (simp add: upper_def upper_char_uppercase)
next
  case 3
  then show ?thesis by (simp add: upper_def)
qed

lemma upper_append: "upper (a @ b) = upper a @ upper b"
  by (simp add: upper_def)

lemma upper_idem: "upper (upper s) = upper s"
proof (induction s)
  case Nil
  then show ?case by (simp add: upper_def)
next
  case (Cons c s)
  have "upper (c # s) = upper_char c @ upper s" by (simp add: upper_def)
  then show ?case using Cons by (simp add: upper_append upper_upper_char)
qed

lemma upper_char_lower_char: "upper_char (lower_char c) = upper_char c"
proof (cases "map_of (zip uppercase_letters lowercase_letters) c")
  case None
  then show ?thesis by (simp add: lower_char_def)
next
  case (Some l)
  then have lc: "lower_char c = l" by (simp add: lower_char_def)
  from Some have "(c, l) \<in> set (zip uppercase_letters lowercase_letters)" by (rule map_of_SomeD)
  then have c: "c \<in> set uppercase_letters" and l: "l \<in> set lowercase_letters"
    by (auto dest: set_zip_leftD set_zip_rightD)
  have "map_of (zip lowercase_letters uppercase_letters) l = Some c"
    using map_of_zip_swap[OF distinct_lowercase _ Some] letters_length by simp
  moreover from l have "l \<noteq> CHR 0xDF" using sharp_s_no_letter by auto
  ultimately have "upper_char l = [c]" by (simp add: upper_char_def)
  with lc upper_char_uppercase[OF c] show ?thesis by simp
qed

lemma upper_lower: "upper (lower s) = upper s"
  by (induction s) (simp_all add: upper_def lower_def upper_char_lower_char)

subsection \<open>Stripping\<close>

lemma lstrip_Nil [simp]: "lstrip [] = []"
  by (simp add: lstrip_def)

lemma rstrip_Nil [simp]: "rstrip [] = []"
  by (simp add: rstrip_def)

lemma strip_Nil [simp]: "strip [] = []"
  by (simp add: strip_def)

lemma lstrip_Cons: "lstrip (c # s) = (if isspace c then lstrip s else c # s)"
  by (simp add: lstrip_def)

lemma rstrip_eq_Nil: "rstrip s = [] \<longleftrightarrow> (\<forall>x\<in>set s. isspace x)"
  by (simp add: rstrip_def)

lemma lstrip_eq_Nil: "lstrip s = [] \<longleftrightarrow> (\<forall>x\<in>set s. isspace x)"
  by (simp add: lstrip_def)

lemma rstrip_Cons: "rstrip (c # s) = (if rstrip s = [] \<and> isspace c then [] else c # rstrip s)"
  by (auto simp: rstrip_def dropWhile_append)

lemma lstrip_idem [simp]: "lstrip (lstrip s) = lstrip s"
  by (simp add: lstrip_def)

lemma rstrip_idem [simp]: "rstrip (rstrip s) = rstrip s"
  by (simp add: rstrip_def)

lemma lstrip_rstrip: "lstrip (rstrip s) = rstrip (lstrip s)"
proof (induction s)
  case Nil
  then show ?case by simp
next
  case (Cons c s)
  show ?case
  proof (cases "isspace c")
    case True
    show ?thesis
    proof (cases "rstrip s = []")
      case e: True
      then have "lstrip s = []" by (simp add: rstrip_eq_Nil lstrip_eq_Nil)
      with e True show ?thesis by (simp add: lstrip_Cons rstrip_Cons)
    next
      case False
      with True Cons show ?thesis by (simp add: lstrip_Cons rstrip_Cons)
    qed
  next
    case False
    then show ?thesis by (simp add: lstrip_Cons rstrip_Cons)
  qed
qed

lemma strip_lstrip [simp]: "strip (lstrip s) = strip s"
  by (simp add: strip_def)

lemma strip_rstrip [simp]: "strip (rstrip s) = strip s"
  by (simp add: strip_def lstrip_rstrip)

lemma strip_idem [simp]: "strip (strip s) = strip s"
  by (simp add: strip_def lstrip_rstrip)

lemma lstrip_append_nonspace: "\<not> isspace c \<Longrightarrow> lstrip (a @ c # b) = lstrip a @ c # b"
  by (induction a) (simp_all add: lstrip_Cons)

lemma rstrip_append_nonspace: "\<not> isspace c \<Longrightarrow> rstrip (a @ c # b) = a @ c # rstrip b"
  by (induction a) (simp_all add: rstrip_Cons)

lemma strip_nonspace_ends: "\<not> isspace c \<Longrightarrow> strip (c # a @ b) = c # rstrip (a @ b)"
  by (simp add: strip_def lstrip_Cons rstrip_Cons)

subsection \<open>Finding a separator\<close>

lemma startswith_append_same [simp]: "startswith (p @ r) p"
  by (simp add: startswith_iff)

lemma find_split_char: "c \<notin> set a \<Longrightarrow> find_split [c] (a @ c # b) = Some (a, b)"
  by (induction a) auto

lemma find_split_char_None: "c \<notin> set s \<Longrightarrow> find_split [c] s = None"
  by (induction s) auto

lemma contains_Cons: "sep \<noteq> [] \<Longrightarrow> contains s sep \<Longrightarrow> contains (c # s) sep"
  by (auto simp: contains_iff) (metis append_Cons)

lemma find_split_first:
  assumes "sep \<noteq> []" and "hd sep \<notin> set (tl sep)" and "\<not> contains a sep"
  shows "find_split sep (a @ sep @ b) = Some (a, b)"
  using assms(3)
proof (induction a)
  case Nil
  from assms(1) obtain x xs where "sep = x # xs" by (cases sep) auto
  then show ?case using startswith_append_same[of sep b] by simp
next
  case (Cons c a)
  from Cons.prems assms(1) have nc: "\<not> contains a sep" using contains_Cons by blast
  have ns: "\<not> startswith (c # a @ sep @ b) sep"
  proof
    assume "startswith (c # a @ sep @ b) sep"
    then obtain r where r: "(c # a) @ sep @ b = sep @ r" by (auto simp: startswith_iff)
    have np: "\<not> (\<exists>us. c # a = sep @ us)"
      using Cons.prems assms(1) by (auto simp: contains_iff) (metis append_Nil)
    from r have "\<exists>us. (c # a = sep @ us \<and> us @ sep @ b = r) \<or> ((c # a) @ us = sep \<and> sep @ b = us @ r)"
      by (simp only: append_eq_append_conv2)
    with np obtain us where us: "(c # a) @ us = sep" "sep @ b = us @ r"
      by blast
    from us(1) np have "us \<noteq> []" by auto
    then obtain u us' where u: "us = u # us'" by (cases us) auto
    with us(2) assms(1) have "hd sep = u" by (cases sep) auto
    moreover from us(1) u have "u \<in> set (tl sep)" by auto
    ultimately show False using assms(2) by simp
  qed
  with Cons.IH[OF nc] show ?case by simp
qed

lemma contains_lstrip: "sep \<noteq> [] \<Longrightarrow> \<not> contains a sep \<Longrightarrow> \<not> contains (lstrip a) sep"
proof (induction a)
  case Nil
  then show ?case by simp
next
  case (Cons c a)
  then show ?case using contains_Cons by (auto simp: lstrip_Cons)
qed

subsection \<open>Splitting at a character\<close>

lemma split_char_not_Nil [simp]: "split_char sep s \<noteq> []"
  by (induction s) (auto split: list.splits)

lemma split_char_no_sep: "sep \<notin> set s \<Longrightarrow> split_char sep s = [s]"
  by (induction s) auto

lemma split_char_append:
  "sep \<notin> set a \<Longrightarrow> split_char sep (a @ sep # b) = a # split_char sep b"
  by (induction a) auto

section \<open>Type inference\<close>

text \<open>
  Claim C9. The type of a column is a function of its name alone, read without regard to
  case, and the first rule that matches decides: a name that contains \<open>ID\<close> or ends in
  \<open>_ID\<close> gets \<open>NUMBER\<close>; otherwise a name that contains \<open>DATE\<close> or \<open>TIME\<close> gets \<open>DATE\<close>;
  otherwise a name that contains \<open>AMOUNT\<close>, \<open>PRICE\<close> or \<open>COST\<close> gets \<open>NUMBER\<close>; every other
  name gets \<open>VARCHAR2(4000)\<close>. Writing the name in upper or in lower case does not change
  its type, and \<open>CUSTOMER_ID\<close>, \<open>ORDER_DATE\<close>, \<open>TOTAL_AMOUNT\<close> and \<open>STATUS\<close> get \<open>NUMBER\<close>,
  \<open>DATE\<close>, \<open>NUMBER\<close> and \<open>VARCHAR2(4000)\<close>.
\<close>

theorem infer_type_priority:
  "infer_type name =
     (if (\<exists>a b. upper name = a @ ''ID'' @ b) \<or> (\<exists>a. upper name = a @ ''_ID'') then ''NUMBER''
      else if (\<exists>a b. upper name = a @ ''DATE'' @ b) \<or> (\<exists>a b. upper name = a @ ''TIME'' @ b)
        then ''DATE''
      else if (\<exists>a b. upper name = a @ ''AMOUNT'' @ b) \<or> (\<exists>a b. upper name = a @ ''PRICE'' @ b)
              \<or> (\<exists>a b. upper name = a @ ''COST'' @ b) then ''NUMBER''
      else ''VARCHAR2(4000)'')
   \<and> infer_type (upper name) = infer_type name
   \<and> infer_type (lower name) = infer_type name
   \<and> infer_type ''CUSTOMER_ID'' = ''NUMBER''
   \<and> infer_type ''ORDER_DATE'' = ''DATE''
   \<and> infer_type ''TOTAL_AMOUNT'' = ''NUMBER''
   \<and> infer_type ''STATUS'' = ''VARCHAR2(4000)''"
proof -
  have chain: "infer_type name =
     (if (\<exists>a b. upper name = a @ ''ID'' @ b) \<or> (\<exists>a. upper name = a @ ''_ID'') then ''NUMBER''
      else if (\<exists>a b. upper name = a @ ''DATE'' @ b) \<or> (\<exists>a b. upper name = a @ ''TIME'' @ b)
        then ''DATE''
      else if (\<exists>a b. upper name = a @ ''AMOUNT'' @ b) \<or> (\<exists>a b. upper name = a @ ''PRICE'' @ b)
              \<or> (\<exists>a b. upper name = a @ ''COST'' @ b) then ''NUMBER''
      else ''VARCHAR2(4000)'')"
    unfolding infer_type_def by (simp only: contains_iff endswith_iff list.distinct not_False_eq_True)
  have up: "infer_type (upper name) = infer_type name"
    by (simp add: infer_type_def upper_idem)
  have low: "infer_type (lower name) = infer_type name"
    by (simp add: infer_type_def upper_lower)
  have e1: "infer_type ''CUSTOMER_ID'' = ''NUMBER''" by code_simp
  have e2: "infer_type ''ORDER_DATE'' = ''DATE''" by code_simp
  have e3: "infer_type ''TOTAL_AMOUNT'' = ''NUMBER''" by code_simp
  have e4: "infer_type ''STATUS'' = ''VARCHAR2(4000)''" by code_simp
  from chain up low e1 e2 e3 e4 show ?thesis by (intro conjI)
qed

section \<open>The related-insert directives\<close>

subsection \<open>A directive of the form KEY:T(K)V\<close>

lemma search_key_group:
  assumes "CHR '')'' \<notin> set K" and "K \<noteq> []"
  shows "search_key (CHR ''('' # K @ CHR '')'' # V) = Some K"
proof -
  have k: "\<And>x. x \<in> set K \<Longrightarrow> x \<noteq> CHR '')''"
    using assms(1) by auto
  have "takeWhile (\<lambda>x. x \<noteq> CHR '')'') (K @ CHR '')'' # V) = K"
    using k by simp
  moreover have "dropWhile (\<lambda>x. x \<noteq> CHR '')'') (K @ CHR '')'' # V) = CHR '')'' # V"
    using k by simp
  ultimately show ?thesis using assms(2) by simp
qed

lemma parse_instruction_KEY:
  assumes "CHR ''('' \<notin> set T" and "CHR '')'' \<notin> set K" and "K \<noteq> []"
  shows "parse_instruction (''KEY:'' @ T @ ''('' @ K @ '')'' @ V) =
     (let v = (if startswith (strip V) '':'' then strip (tl (strip V)) else strip V)
      in if strip K \<noteq> [] \<and> v \<noteq> []
         then Some \<lparr>ri_type = ''KEY'', ri_target_table = strip T, ri_key_column = strip K,
                    ri_value_column = v\<rparr>
         else None)"
proof -
  have a: "find_split ''('' (T @ CHR ''('' # K @ CHR '')'' # V) = Some (T, K @ CHR '')'' # V)"
    using assms(1) by (rule find_split_char)
  have b: "find_split '')'' ((CHR ''('' # K) @ CHR '')'' # V) = Some (CHR ''('' # K, V)"
    using assms(2) by (intro find_split_char) simp
  have c: "search_key (CHR ''('' # K @ CHR '')'' # V) = Some K"
    using assms(2,3) by (rule search_key_group)
  show ?thesis
    using a b c by (simp add: parse_instruction_def Let_def)
qed

lemma map_filter_single:
  "List.map_filter f [x] = (case f x of None \<Rightarrow> [] | Some y \<Rightarrow> [y])"
  by (simp add: List.map_filter_def split: option.splits)

lemma strip_KEY_directive:
  "strip (''KEY:'' @ T @ ''('' @ K @ '')'' @ V) = ''KEY:'' @ T @ ''('' @ K @ '')'' @ rstrip V"
proof -
  have "\<not> isspace CHR ''K''" "\<not> isspace CHR '')''" by (simp_all add: isspace_def)
  then show ?thesis
    using rstrip_append_nonspace[of "CHR '')''" "''KEY:'' @ T @ ''('' @ K" V]
    by (simp add: strip_def lstrip_Cons)
qed

lemma process_related_inserts_KEY:
  assumes "CHR ''('' \<notin> set T" and "CHR '')'' \<notin> set K" and "K \<noteq> []"
    and "CHR '','' \<notin> set (T @ K @ V)"
  shows "process_related_inserts (PStr (''KEY:'' @ T @ ''('' @ K @ '')'' @ V)) =
     (let v = (if startswith (strip V) '':'' then strip (tl (strip V)) else strip V)
      in if strip K \<noteq> [] \<and> v \<noteq> []
         then [\<lparr>ri_type = ''KEY'', ri_target_table = strip T, ri_key_column = strip K,
                 ri_value_column = v\<rparr>]
         else [])"
proof -
  let ?d = "''KEY:'' @ T @ ''('' @ K @ '')'' @ V"
  have "CHR '','' \<notin> set ?d" using assms(4) by simp
  then have sp: "split_char CHR '','' ?d = [?d]" by (rule split_char_no_sep)
  have "process_related_inserts (PStr ?d) =
          List.map_filter (\<lambda>instruction. parse_instruction (strip instruction)) [?d]"
    using sp by simp
  also have "\<dots> = (case parse_instruction (''KEY:'' @ T @ ''('' @ K @ '')'' @ rstrip V) of
                     None \<Rightarrow> [] | Some ri \<Rightarrow> [ri])"
    unfolding map_filter_single strip_KEY_directive ..
  finally show ?thesis
    using parse_instruction_KEY[OF assms(1,2,3), of "rstrip V"] by (simp add: Let_def)
qed

lemma search_key_no_open: "CHR ''('' \<notin> set s \<Longrightarrow> search_key s = None"
  by (induction s) auto

lemma set_rstrip: "set (rstrip t) \<subseteq> set t"
  by (auto simp: rstrip_def dest: set_dropWhileD)

lemma process_related_inserts_KEY_empty:
  assumes "CHR ''('' \<notin> set T" and "CHR ''('' \<notin> set V" and "CHR '','' \<notin> set (T @ V)"
  shows "process_related_inserts (PStr (''KEY:'' @ T @ ''('' @ [] @ '')'' @ V)) = []"
proof -
  let ?d = "''KEY:'' @ T @ ''('' @ [] @ '')'' @ V"
  have "CHR '','' \<notin> set ?d" using assms(3) by simp
  then have sp: "split_char CHR '','' ?d = [?d]" by (rule split_char_no_sep)
  have a: "find_split ''('' (T @ CHR ''('' # CHR '')'' # rstrip V) = Some (T, CHR '')'' # rstrip V)"
    using assms(1) by (rule find_split_char)
  have "CHR ''('' \<notin> set (rstrip V)" using assms(2) set_rstrip by blast
  then have "search_key (rstrip V) = None" by (rule search_key_no_open)
  then have c: "search_key (CHR ''('' # CHR '')'' # rstrip V) = None" by simp
  have p: "parse_instruction (''KEY:'' @ T @ ''('' @ [] @ '')'' @ rstrip V) = None"
    using a c by (simp add: parse_instruction_def)
  have "process_related_inserts (PStr ?d) =
          List.map_filter (\<lambda>instruction. parse_instruction (strip instruction)) [?d]"
    using sp by simp
  also have "\<dots> = (case parse_instruction (''KEY:'' @ T @ ''('' @ [] @ '')'' @ rstrip V) of
                     None \<Rightarrow> [] | Some ri \<Rightarrow> [ri])"
    unfolding map_filter_single strip_KEY_directive ..
  finally show ?thesis using p by simp
qed

text \<open>
  Claim C6. The directive \<open>KEY:migrt_key(ID):NAME\<close> parses to exactly one related insert
  of type \<open>KEY\<close> with target table \<open>migrt_key\<close>, key column \<open>ID\<close> and value column \<open>NAME\<close>.
  In general, take a directive \<open>KEY:T(K)V\<close> without a comma, where \<open>T\<close> is the text before
  the first \<open>(\<close> and \<open>K\<close> the text between that \<open>(\<close> and the first \<open>)\<close> after it, and where
  \<open>K\<close> is not empty or \<open>V\<close> holds no further \<open>(\<close>. Its target table is \<open>T\<close>, its key column
  is \<open>K\<close>, and its value column is \<open>V\<close> without one leading colon, each of them trimmed;
  the directive is kept when key column and value column are not empty, and dropped
  otherwise.
\<close>

theorem key_directive_parse:
  assumes "CHR ''('' \<notin> set T" and "CHR '')'' \<notin> set K" and "K \<noteq> [] \<or> CHR ''('' \<notin> set V"
    and "CHR '','' \<notin> set (T @ K @ V)"
  shows "process_related_inserts (PStr (''KEY:'' @ T @ ''('' @ K @ '')'' @ V)) =
           (let v = (if startswith (strip V) '':'' then strip (tl (strip V)) else strip V)
            in if strip K \<noteq> [] \<and> v \<noteq> []
               then [\<lparr>ri_type = ''KEY'', ri_target_table = strip T, ri_key_column = strip K,
                       ri_value_column = v\<rparr>]
               else [])
         \<and> process_related_inserts (PStr ''KEY:migrt_key(ID):NAME'') =
             [\<lparr>ri_type = ''KEY'', ri_target_table = ''migrt_key'', ri_key_column = ''ID'',
               ri_value_column = ''NAME''\<rparr>]"
proof
  show "process_related_inserts (PStr (''KEY:'' @ T @ ''('' @ K @ '')'' @ V)) =
           (let v = (if startswith (strip V) '':'' then strip (tl (strip V)) else strip V)
            in if strip K \<noteq> [] \<and> v \<noteq> []
               then [\<lparr>ri_type = ''KEY'', ri_target_table = strip T, ri_key_column = strip K,
                       ri_value_column = v\<rparr>]
               else [])"
  proof (cases "K = []")
    case False
    with assms(1,2,4) show ?thesis by (intro process_related_inserts_KEY)
  next
    case True
    with assms(3) have "CHR ''('' \<notin> set V" by simp
    moreover from assms(4) True have "CHR '','' \<notin> set (T @ V)" by simp
    ultimately have "process_related_inserts (PStr (''KEY:'' @ T @ ''('' @ [] @ '')'' @ V)) = []"
      using assms(1) by (intro process_related_inserts_KEY_empty)
    with True show ?thesis by (simp add: Let_def del: process_related_inserts.simps)
  qed
  show "process_related_inserts (PStr ''KEY:migrt_key(ID):NAME'') =
             [\<lparr>ri_type = ''KEY'', ri_target_table = ''migrt_key'', ri_key_column = ''ID'',
               ri_value_column = ''NAME''\<rparr>]"
    using process_related_inserts_KEY[of "''migrt_key''" "''ID''" "'':NAME''"]
    by (simp add: strip_def lstrip_def rstrip_def isspace_def)
qed

theorem key_directive_parse_witness:
  "CHR ''('' \<notin> set ''tbl '' \<and> CHR '')'' \<notin> set '' ID '' \<and> '' ID '' \<noteq> []
   \<and> CHR '','' \<notin> set (''tbl '' @ '' ID '' @ '' : NAME '')
   \<and> process_related_inserts (PStr ''KEY:tbl ( ID ) : NAME '') =
       [\<lparr>ri_type = ''KEY'', ri_target_table = ''tbl'', ri_key_column = ''ID'',
         ri_value_column = ''NAME''\<rparr>]"
  using key_directive_parse[of "''tbl ''" "'' ID ''" "'' : NAME ''"]
  by (simp add: strip_def lstrip_def rstrip_def isspace_def)




text \<open>
  Claim C7. Both parsers drop a malformed clause and go on with the rest of the text. The
  directive \<open>KEY:t():V(X)\<close> has nothing between its first parentheses, so its key column
  is empty and it should be dropped. The search for the key column goes on to the later
  group \<open>(X)\<close>, while the value column is still cut after the first \<open>)\<close>: the directive is
  kept, with key column \<open>X\<close> and value column \<open>V(X)\<close>.
\<close>

theorem empty_key_column_kept:
  "process_related_inserts (PStr ''KEY:t():V(X)'') =
     [\<lparr>ri_type = ''KEY'', ri_target_table = ''t'', ri_key_column = ''X'',
       ri_value_column = ''V(X)''\<rparr>]"
  by (simp add: parse_instruction_def List.map_filter_def strip_def lstrip_def rstrip_def
        isspace_def)

text \<open>The other malformed shapes are dropped: a clause without \<open>->\<close> leaves the mappings
  as they are, and a directive without \<open>(\<close> or without \<open>)\<close> appends nothing.\<close>

lemma apply_transform_no_arrow:
  "\<not> contains transform ''->'' \<Longrightarrow> apply_transform transform mappings = mappings"
  by (cases "find_split ''->'' transform") (simp_all add: apply_transform_def contains_def)

lemma process_transformations_skips:
  "process_transformations (PStr s) =
     fold apply_transform (filter (\<lambda>t. contains t ''->'') (split_transformations s)) []"
proof -
  have "fold apply_transform ts m = fold apply_transform (filter (\<lambda>t. contains t ''->'') ts) m"
    for ts m
    by (induction ts arbitrary: m) (simp_all add: apply_transform_no_arrow)
  moreover have "split_transformations [] = []"
    by (simp add: split_transformations_def)
  ultimately show ?thesis by simp
qed

lemma parse_instruction_no_paren:
  "CHR ''('' \<notin> set instruction \<Longrightarrow> parse_instruction instruction = None"
proof -
  assume "CHR ''('' \<notin> set instruction"
  then have "CHR ''('' \<notin> set (drop 4 instruction)" by (meson in_set_dropD)
  then have "find_split ''('' (drop 4 instruction) = None" by (rule find_split_char_None)
  then show ?thesis by (simp add: parse_instruction_def)
qed

lemma search_key_no_close: "CHR '')'' \<notin> set s \<Longrightarrow> search_key s = None"
proof (induction s)
  case Nil
  then show ?case by simp
next
  case (Cons c s)
  then have "dropWhile (\<lambda>x. x \<noteq> CHR '')'') s = []" by auto
  with Cons show ?case by simp
qed

lemma parse_instruction_no_close:
  assumes "CHR '')'' \<notin> set instruction"
  shows "parse_instruction instruction = None"
proof (cases "find_split ''('' (drop 4 instruction)")
  case None
  then show ?thesis by (simp add: parse_instruction_def)
next
  case (Some p)
  obtain p0 p1 where p: "p = (p0, p1)" by (cases p)
  from Some p have "drop 4 instruction = p0 @ ''('' @ p1" by (auto dest: find_split_Some)
  then have "set p1 \<subseteq> set (drop 4 instruction)" by auto
  with assms have "CHR '')'' \<notin> set (CHR ''('' # p1)" by (auto dest: in_set_dropD)
  then have "search_key (CHR ''('' # p1) = None" by (rule search_key_no_close)
  with Some p show ?thesis by (simp add: parse_instruction_def)
qed

lemma process_related_inserts_unclosed:
  "process_related_inserts (PStr ''KEY:tbl(ID'') = []"
  by (simp add: parse_instruction_def List.map_filter_def strip_def lstrip_def rstrip_def
        isspace_def)

section \<open>The insert statement\<close>

lemma map_filter_enumerate_less:
  "List.map_filter (\<lambda>(i, x). if i < n then Some (g (i, x)) else None) (enumerate k xs)
     = map g (enumerate k (take (n - k) xs))"
proof (induction xs arbitrary: k)
  case Nil
  then show ?case by simp
next
  case (Cons x xs)
  show ?case
  proof (cases "k < n")
    case True
    then obtain m where m: "n - k = Suc m" by (cases "n - k") auto
    then have "n - Suc k = m" by simp
    with True m Cons[of "Suc k"] show ?thesis by simp
  next
    case False
    then have "n - k = 0" "n - Suc k = 0" by simp_all
    with False Cons[of "Suc k"] show ?thesis by simp
  qed
qed

lemma insert_values_eq:
  "insert_values transformations source_columns target_columns =
     map (\<lambda>(i, src_col). ''          '' @ value_expression transformations (strip src_col)
            @ (if i + 1 < length target_columns then '','' else []) @ ''\<newline>'')
         (enumerate 0 (take (length target_columns) source_columns))"
proof -
  define g :: "nat \<times> string \<Rightarrow> string" where
    "g = (\<lambda>(i, src_col). ''          '' @ value_expression transformations (strip src_col)
            @ (if i + 1 < length target_columns then '','' else []) @ ''\<newline>'')"
  have "insert_value transformations target_columns =
          (\<lambda>(i, x). if i < length target_columns then Some (g (i, x)) else None)"
    unfolding insert_value_def g_def by (rule ext) (simp split: prod.splits)
  then have "insert_values transformations source_columns target_columns =
          map g (enumerate 0 (take (length target_columns - 0) source_columns))"
    unfolding insert_values_def by (simp only: map_filter_enumerate_less)
  then show ?thesis unfolding g_def by simp
qed

text \<open>When there are at least as many source columns as target columns, the two lists
  of the insert statement have the same number of entries.\<close>

lemma insert_lists_lengths:
  "length (insert_values transformations source_columns target_columns)
     = min (length source_columns) (length target_columns)"
  "length (insert_columns target_columns) = length target_columns"
  by (simp_all add: insert_values_eq insert_columns_def min.commute)

text \<open>
  Claim C1. The insert statement of a unit names as many columns as it gives values, the
  smaller of the numbers of source and of target columns. For the row with source columns
  \<open>A\<close> and target columns \<open>X,Y\<close> the column list has the two entries \<open>X\<close> and \<open>Y\<close>, and the
  values list has the one entry for \<open>A\<close>, which ends in a comma.
\<close>

theorem insert_lists_mismatch:
  "resolve_source_columns [''source_columns'' \<mapsto> PStr ''A'', ''target_columns'' \<mapsto> PStr ''X,Y'']
     = [''A'']
   \<and> resolve_target_columns [''source_columns'' \<mapsto> PStr ''A'', ''target_columns'' \<mapsto> PStr ''X,Y'']
       [] [''A''] = [''X'', ''Y'']
   \<and> insert_columns [''X'', ''Y''] = [''          X,\<newline>'', ''          Y\<newline>'']
   \<and> insert_values [] [''A''] [''X'', ''Y''] = [''          v_source_data(i).A,\<newline>'']
   \<and> min (length [''A'']) (length [''X'', ''Y'']) = 1"
  by (simp add: resolve_source_columns_def resolve_target_columns_def get_def clean_columns_def
        strip_def lstrip_def rstrip_def isspace_def insert_columns_def insert_values_def
        insert_value_def value_expression_def enumerate_eq_zip)

section \<open>The units of a batch\<close>

lemma generate_script_PStr:
  assumes "get item ''target_table'' (PStr ''unknown_target'') = PStr t"
  shows "\<exists>s. generate_script item = Inr s
           \<and> sc_source_table s = get item ''source_table'' (PStr ''unknown_source'')
           \<and> sc_target_table s = t"
  using assms by (simp add: generate_script_def Let_def)

lemma generate_script_PObj:
  assumes "get item ''target_table'' (PStr ''unknown_target'') = PObj text truth"
  shows "generate_script item = Inl AttributeError"
  using assms by (simp add: generate_script_def Let_def)

lemma generate_scripts_Inr:
  "generate_scripts mapping_data = Inr scripts \<longleftrightarrow>
     list_all2 (\<lambda>item script. generate_script item = Inr script) mapping_data scripts"
proof (induction mapping_data arbitrary: scripts)
  case Nil
  then show ?case by auto
next
  case (Cons item mapping_data)
  show ?case
  proof (cases "generate_script item")
    case (Inl e)
    then show ?thesis by (auto simp: list_all2_Cons1)
  next
    case (Inr script)
    show ?thesis
    proof (cases "generate_scripts mapping_data")
      case (Inl e)
      with Inr Cons.IH show ?thesis by (auto simp: list_all2_Cons1)
    next
      case r: (Inr rest)
      with Inr Cons.IH show ?thesis by (auto simp: list_all2_Cons1)
    qed
  qed
qed

lemma generate_scripts_total:
  assumes "\<forall>item\<in>set mapping_data. \<exists>t. get item ''target_table'' (PStr ''unknown_target'') = PStr t"
  shows "\<exists>scripts. generate_scripts mapping_data = Inr scripts"
  using assms
proof (induction mapping_data)
  case Nil
  then show ?case by simp
next
  case (Cons item mapping_data)
  then obtain t where "get item ''target_table'' (PStr ''unknown_target'') = PStr t" by auto
  then obtain s where "generate_script item = Inr s" using generate_script_PStr by blast
  moreover from Cons obtain scripts where "generate_scripts mapping_data = Inr scripts" by auto
  ultimately show ?case by simp
qed

text \<open>
  Claim C8. A batch of N rows gives N + 1 units: the units of the rows, in the order of the
  rows, and then one controller unit whose source and target table are both \<open>ALL\<close>. The
  code of the controller calls \<open>migrate_data\<close> of the package of each unit, in the order
  of the units, each call in a block of its own whose exception handler reports the
  error, so that the calls after it still run. (The batch is generated when every target
  table present in a row is a string.)
\<close>

theorem batch_units:
  assumes "\<forall>item\<in>set mapping_data. \<exists>t. get item ''target_table'' (PStr ''unknown_target'') = PStr t"
  shows "\<exists>scripts.
           build_scripts mapping_data =
             Inr (scripts @ [\<lparr>sc_filename = ''migrate_all.sql'', sc_code = main_script scripts,
                               sc_source_table = PStr ''ALL'', sc_target_table = ''ALL''\<rparr>])
         \<and> length scripts = length mapping_data
         \<and> (\<forall>i<length mapping_data. generate_script (mapping_data ! i) = Inr (scripts ! i))
         \<and> main_script scripts =
             ''\<newline>SET SERVEROUTPUT ON;\<newline>\<newline>-- Main migration controller\<newline>BEGIN\<newline>''
             @ ''  DBMS_OUTPUT.PUT_LINE('=== DATA MIGRATION START: ' || TO_CHAR(SYSDATE, 'DD-MON-YYYY HH24:MI:SS') || ' ===');\<newline>''
             @ ''  DBMS_OUTPUT.PUT_LINE('' @ [CHR 0x27, CHR 0x27] @ '');\<newline>\<newline>''
             @ concat (map (\<lambda>(i, script).
                  ''  -- Migration '' @ str_nat (i + 1) @ '': '' @ py_str (sc_source_table script)
                     @ '' to '' @ sc_target_table script @ ''\<newline>''
                  @ ''  BEGIN\<newline>''
                  @ ''    migrt_'' @ lower (sc_target_table script) @ ''.migrate_data;\<newline>''
                  @ ''    DBMS_OUTPUT.PUT_LINE('' @ [CHR 0x27, CHR 0x27] @ '');\<newline>''
                  @ ''  EXCEPTION\<newline>''
                  @ ''    WHEN OTHERS THEN\<newline>''
                  @ ''      DBMS_OUTPUT.PUT_LINE('Error in migrt_'' @ lower (sc_target_table script)
                     @ '': ' || SQLERRM);\<newline>''
                  @ ''      DBMS_OUTPUT.PUT_LINE('' @ [CHR 0x27, CHR 0x27] @ '');\<newline>''
                  @ ''  END;\<newline>''
                  @ (if i + 1 < length scripts then ''\<newline>'' else []))
                (enumerate 0 scripts))
             @ ''\<newline>''
             @ ''  DBMS_OUTPUT.PUT_LINE('=== DATA MIGRATION END: ' || TO_CHAR(SYSDATE, 'DD-MON-YYYY HH24:MI:SS') || ' ===');\<newline>''
             @ ''END;\<newline>/\<newline>''"
proof -
  from generate_scripts_total[OF assms] obtain scripts
    where s: "generate_scripts mapping_data = Inr scripts" ..
  then have l: "list_all2 (\<lambda>item script. generate_script item = Inr script) mapping_data scripts"
    by (simp add: generate_scripts_Inr)
  have 1: "build_scripts mapping_data =
             Inr (scripts @ [\<lparr>sc_filename = ''migrate_all.sql'', sc_code = main_script scripts,
                               sc_source_table = PStr ''ALL'', sc_target_table = ''ALL''\<rparr>])"
    using s by (simp add: build_scripts_def)
  have 2: "length scripts = length mapping_data"
    using l by (simp add: list_all2_lengthD)
  have 3: "\<forall>i<length mapping_data. generate_script (mapping_data ! i) = Inr (scripts ! i)"
    using l by (simp add: list_all2_conv_all_nth)
  have 4: "main_script scripts =
             ''\<newline>SET SERVEROUTPUT ON;\<newline>\<newline>-- Main migration controller\<newline>BEGIN\<newline>''
             @ ''  DBMS_OUTPUT.PUT_LINE('=== DATA MIGRATION START: ' || TO_CHAR(SYSDATE, 'DD-MON-YYYY HH24:MI:SS') || ' ===');\<newline>''
             @ ''  DBMS_OUTPUT.PUT_LINE('' @ [CHR 0x27, CHR 0x27] @ '');\<newline>\<newline>''
             @ concat (map (\<lambda>(i, script).
                  ''  -- Migration '' @ str_nat (i + 1) @ '': '' @ py_str (sc_source_table script)
                     @ '' to '' @ sc_target_table script @ ''\<newline>''
                  @ ''  BEGIN\<newline>''
                  @ ''    migrt_'' @ lower (sc_target_table script) @ ''.migrate_data;\<newline>''
                  @ ''    DBMS_OUTPUT.PUT_LINE('' @ [CHR 0x27, CHR 0x27] @ '');\<newline>''
                  @ ''  EXCEPTION\<newline>''
                  @ ''    WHEN OTHERS THEN\<newline>''
                  @ ''      DBMS_OUTPUT.PUT_LINE('Error in migrt_'' @ lower (sc_target_table script)
                     @ '': ' || SQLERRM);\<newline>''
                  @ ''      DBMS_OUTPUT.PUT_LINE('' @ [CHR 0x27, CHR 0x27] @ '');\<newline>''
                  @ ''  END;\<newline>''
                  @ (if i + 1 < length scripts then ''\<newline>'' else []))
                (enumerate 0 scripts))
             @ ''\<newline>''
             @ ''  DBMS_OUTPUT.PUT_LINE('=== DATA MIGRATION END: ' || TO_CHAR(SYSDATE, 'DD-MON-YYYY HH24:MI:SS') || ' ===');\<newline>''
             @ ''END;\<newline>/\<newline>''"
    by (simp add: main_script_def main_call_def Let_def case_prod_unfold)
  from 1 2 3 4 show ?thesis by blast
qed

theorem batch_units_witness:
  "\<exists>scripts.
     build_scripts [[''source_table'' \<mapsto> PStr ''A_OLD'', ''target_table'' \<mapsto> PStr ''A_NEW''],
                    Map.empty,
                    [''source_table'' \<mapsto> PStr ''C_OLD'', ''target_table'' \<mapsto> PStr ''C_NEW'']]
       = Inr (scripts @ [\<lparr>sc_filename = ''migrate_all.sql'', sc_code = main_script scripts,
                          sc_source_table = PStr ''ALL'', sc_target_table = ''ALL''\<rparr>])
     \<and> length scripts = 3
     \<and> map sc_target_table scripts = [''A_NEW'', ''unknown_target'', ''C_NEW'']"
proof -
  let ?r1 = "[''source_table'' \<mapsto> PStr ''A_OLD'', ''target_table'' \<mapsto> PStr ''A_NEW'']"
  let ?r3 = "[''source_table'' \<mapsto> PStr ''C_OLD'', ''target_table'' \<mapsto> PStr ''C_NEW'']"
  let ?data = "[?r1, Map.empty, ?r3]"
  have h: "\<forall>item\<in>set ?data. \<exists>t. get item ''target_table'' (PStr ''unknown_target'') = PStr t"
    by (simp add: get_def)
  from batch_units[OF h] obtain scripts where
    b: "build_scripts ?data =
          Inr (scripts @ [\<lparr>sc_filename = ''migrate_all.sql'', sc_code = main_script scripts,
                            sc_source_table = PStr ''ALL'', sc_target_table = ''ALL''\<rparr>])"
    and l: "length scripts = length ?data"
    and g: "\<forall>i<length ?data. generate_script (?data ! i) = Inr (scripts ! i)"
    by blast
  from l obtain s0 s1 s2 where s: "scripts = [s0, s1, s2]"
    by (auto simp: length_Suc_conv)
  from g[rule_format, of 0] g[rule_format, of 1] g[rule_format, of 2]
  have "generate_script (?data ! 0) = Inr (scripts ! 0)"
    "generate_script (?data ! 1) = Inr (scripts ! 1)"
    "generate_script (?data ! 2) = Inr (scripts ! 2)"
    by simp_all
  with s have "generate_script ?r1 = Inr s0" "generate_script Map.empty = Inr s1"
    "generate_script ?r3 = Inr s2"
    by simp_all
  then have "sc_target_table s0 = ''A_NEW''" "sc_target_table s1 = ''unknown_target''"
    "sc_target_table s2 = ''C_NEW''"
    using generate_script_PStr[of ?r1 "''A_NEW''"] generate_script_PStr[of Map.empty "''unknown_target''"]
      generate_script_PStr[of ?r3 "''C_NEW''"]
    by (auto simp: get_def)
  with s have "map sc_target_table scripts = [''A_NEW'', ''unknown_target'', ''C_NEW'']" by simp
  with b l show ?thesis by auto
qed

section \<open>The clause step\<close>

lemma contains_Nil [simp]: "\<not> contains [] sep"
  by (simp add: contains_def)

lemma not_contains_iff: "\<not> contains s sub \<longleftrightarrow> find_split sub s = None"
  unfolding contains_def by blast

lemma find_split_prefix_free:
  assumes "sep \<noteq> []" and "find_split sep s = Some (a, b)"
  shows "\<not> contains a sep"
  using assms(2)
proof (induction s arbitrary: a)
  case Nil
  then show ?case by simp
next
  case (Cons c cs)
  show ?case
  proof (cases "startswith (c # cs) sep")
    case True
    with Cons.prems have "a = []" by simp
    then show ?thesis by simp
  next
    case False
    with Cons.prems obtain a' where a': "find_split sep cs = Some (a', b)" "a = c # a'"
      by (auto split: prod.splits)
    from Cons.IH[OF a'(1)] have n: "find_split sep a' = None" by (simp only: not_contains_iff)
    from a'(1) have cs: "cs = a' @ sep @ b" by (rule find_split_Some)
    have "\<not> startswith (c # a') sep"
    proof
      assume "startswith (c # a') sep"
      then obtain r where "c # a' = sep @ r" by (auto simp: startswith_iff)
      then have "c # cs = sep @ (r @ sep @ b)" using cs by simp
      then have "startswith (c # cs) sep" unfolding startswith_iff by blast
      with False show False ..
    qed
    with n a'(2) show ?thesis by (simp add: not_contains_iff)
  qed
qed

lemma not_space_arrow: "\<not> isspace CHR ''-''" "\<not> isspace CHR ''>''" "\<not> isspace CHR ''(''"
  "\<not> isspace CHR '')''" "\<not> isspace CHR '',''"
  by (simp_all add: isspace_def)

lemma find_split_arrow:
  "\<not> contains a ''->'' \<Longrightarrow> find_split ''->'' (a @ ''->'' @ b) = Some (a, b)"
  by (rule find_split_first) simp_all

lemma find_split_MAP:
  "\<not> contains a ''(MAP:'' \<Longrightarrow> find_split ''(MAP:'' (a @ ''(MAP:'' @ b) = Some (a, b)"
  by (rule find_split_first) simp_all

lemma lstrip_arrow: "lstrip (a @ ''->'' @ b) = lstrip a @ ''->'' @ b"
  using lstrip_append_nonspace[OF not_space_arrow(1), of a "CHR ''>'' # b"] by simp

lemma rstrip_arrow: "rstrip (a @ ''->'' @ b) = a @ ''->'' @ rstrip b"
  using rstrip_append_nonspace[OF not_space_arrow(2), of "a @ ''-''" b] by simp

text \<open>Leading and trailing blanks of a clause, and of a pair, make no difference.\<close>

lemma parse_value_item_lstrip: "parse_value_item (lstrip x) vm = parse_value_item x vm"
proof (cases "find_split ''->'' x")
  case None
  then have "\<not> contains x ''->''" by (simp only: not_contains_iff)
  then have "\<not> contains (lstrip x) ''->''" by (intro contains_lstrip) simp_all
  then have "find_split ''->'' (lstrip x) = None" by (simp only: not_contains_iff)
  with None show ?thesis by (simp add: parse_value_item_def)
next
  case (Some p)
  obtain a b where p: "p = (a, b)" by (cases p)
  from Some p have x: "x = a @ ''->'' @ b" by (auto dest: find_split_Some)
  from Some p have "\<not> contains a ''->''" by (intro find_split_prefix_free[of _ x a b]) simp_all
  then have "\<not> contains (lstrip a) ''->''" by (intro contains_lstrip) simp_all
  then have "find_split ''->'' (lstrip x) = Some (lstrip a, b)"
    unfolding x lstrip_arrow by (rule find_split_arrow)
  with Some p show ?thesis by (simp add: parse_value_item_def)
qed

lemma parse_value_item_rstrip: "parse_value_item (rstrip x) vm = parse_value_item x vm"
proof (cases "find_split ''->'' x")
  case None
  have "find_split ''->'' (rstrip x) = None"
  proof (rule ccontr)
    assume "find_split ''->'' (rstrip x) \<noteq> None"
    then obtain a b where "find_split ''->'' (rstrip x) = Some (a, b)" by auto
    then have r: "rstrip x = a @ ''->'' @ b" by (rule find_split_Some)
    have "\<exists>t. x = rstrip x @ t"
      by (simp add: rstrip_def) (metis append_take_drop_id dropWhile_eq_drop rev_append rev_rev_ident)
    then obtain t where "x = a @ ''->'' @ (b @ t)" using r by auto
    then have "contains x ''->''" by (subst contains_iff) auto
    with None show False by (simp add: not_contains_iff[symmetric])
  qed
  with None show ?thesis by (simp add: parse_value_item_def)
next
  case (Some p)
  obtain a b where p: "p = (a, b)" by (cases p)
  from Some p have x: "x = a @ ''->'' @ b" by (auto dest: find_split_Some)
  from Some p have "\<not> contains a ''->''" by (intro find_split_prefix_free[of _ x a b]) simp_all
  then have "find_split ''->'' (rstrip x) = Some (a, rstrip b)"
    unfolding x rstrip_arrow by (rule find_split_arrow)
  with Some p show ?thesis by (simp add: parse_value_item_def)
qed

lemma split_char_lstrip:
  "split_char CHR '','' (lstrip s) =
     lstrip (hd (split_char CHR '','' s)) # tl (split_char CHR '','' s)"
proof (induction s)
  case Nil
  then show ?case by simp
next
  case (Cons c s)
  obtain x xs where x: "split_char CHR '','' s = x # xs"
    by (cases "split_char CHR '','' s") auto
  show ?case
  proof (cases "isspace c")
    case True
    then have "c \<noteq> CHR '',''" using not_space_arrow(5) by auto
    with True Cons x show ?thesis by (simp add: lstrip_Cons)
  next
    case False
    with x show ?thesis by (simp add: lstrip_Cons)
  qed
qed

lemma split_char_single: "split_char sep s = [x] \<Longrightarrow> x = s"
proof (induction s arbitrary: x)
  case Nil
  then show ?case by simp
next
  case (Cons c s)
  then show ?case by (auto split: if_splits list.splits)
qed

lemma split_char_rstrip:
  "split_char CHR '','' (rstrip s) =
     butlast (split_char CHR '','' s) @ [rstrip (last (split_char CHR '','' s))]"
proof (induction s)
  case Nil
  then show ?case by simp
next
  case (Cons c s)
  obtain x xs where x: "split_char CHR '','' s = x # xs"
    by (cases "split_char CHR '','' s") auto
  show ?case
  proof (cases "rstrip s = [] \<and> isspace c")
    case True
    then have sp: "\<forall>y\<in>set s. isspace y" by (simp add: rstrip_eq_Nil)
    then have "CHR '','' \<notin> set s" using not_space_arrow(5) by auto
    then have "split_char CHR '','' s = [s]" by (rule split_char_no_sep)
    moreover from True have "c \<noteq> CHR '',''" using not_space_arrow(5) by auto
    moreover from True have "rstrip (c # s) = []" by (simp add: rstrip_Cons)
    ultimately show ?thesis by simp
  next
    case False
    then have r: "rstrip (c # s) = c # rstrip s" by (simp add: rstrip_Cons)
    show ?thesis
    proof (cases "c = CHR '',''")
      case True
      with r Cons x show ?thesis by simp
    next
      case nc: False
      show ?thesis
      proof (cases xs)
        case Nil
        with x have "x = s" using split_char_single by blast
        with Nil x Cons have "split_char CHR '','' (rstrip s) = [rstrip s]" by simp
        with nc r Nil x \<open>x = s\<close> show ?thesis by simp
      next
        case (Cons y ys)
        with nc r x Cons.IH show ?thesis by simp
      qed
    qed
  qed
qed

lemma fold_parse_value_item_strip:
  "fold parse_value_item (split_char CHR '','' (strip s)) vm
     = fold parse_value_item (split_char CHR '','' s) vm"
proof -
  have l: "fold parse_value_item (split_char CHR '','' (lstrip t)) vm
     = fold parse_value_item (split_char CHR '','' t) vm" for t vm
  proof -
    obtain x xs where x: "split_char CHR '','' t = x # xs"
      by (cases "split_char CHR '','' t") auto
    then show ?thesis by (simp add: split_char_lstrip parse_value_item_lstrip)
  qed
  have r: "fold parse_value_item (split_char CHR '','' (rstrip t)) vm
     = fold parse_value_item (split_char CHR '','' t) vm" for t vm
  proof -
    have "split_char CHR '','' t = butlast (split_char CHR '','' t) @ [last (split_char CHR '','' t)]"
      by simp
    then have "fold parse_value_item (split_char CHR '','' t) vm =
        parse_value_item (last (split_char CHR '','' t))
          (fold parse_value_item (butlast (split_char CHR '','' t)) vm)"
      by (metis comp_apply fold.simps(1) fold.simps(2) fold_append id_apply)
    then show ?thesis by (simp add: split_char_rstrip parse_value_item_rstrip)
  qed
  show ?thesis unfolding strip_def by (simp only: l r)
qed

lemma split_char_join:
  "items \<noteq> [] \<Longrightarrow> \<forall>x\<in>set items. CHR '','' \<notin> set x \<Longrightarrow>
     split_char CHR '','' (join '','' items) = items"
proof (induction items)
  case Nil
  then show ?case by simp
next
  case (Cons x xs)
  show ?case
  proof (cases xs)
    case Nil
    with Cons.prems show ?thesis by (simp add: split_char_no_sep)
  next
    case (Cons y ys)
    with Cons.prems Cons.IH have "split_char CHR '','' (join '','' xs) = xs" by simp
    moreover from Cons.prems have "CHR '','' \<notin> set x" by simp
    ultimately show ?thesis
      using Cons split_char_append[of "CHR '',''" x "join '','' xs"] by simp
  qed
qed

lemma parse_value_item_pair:
  "\<not> contains k ''->'' \<Longrightarrow>
     parse_value_item (k @ ''->'' @ v) vm =
       AList.update (strip_chars (strip k) [CHR 0x27, CHR 0x22])
                    (strip_chars (strip v) [CHR 0x27, CHR 0x22]) vm"
  using find_split_arrow[of k v] by (simp add: parse_value_item_def)

lemma fold_parse_value_item_pairs:
  "\<forall>p\<in>set pairs. \<not> contains (fst p) ''->'' \<Longrightarrow>
     fold parse_value_item (map (\<lambda>(k, v). k @ ''->'' @ v) pairs) vm =
     fold (\<lambda>(k, v). AList.update (strip_chars (strip k) [CHR 0x27, CHR 0x22])
                                 (strip_chars (strip v) [CHR 0x27, CHR 0x22])) pairs vm"
proof (induction pairs arbitrary: vm)
  case Nil
  then show ?case by simp
next
  case (Cons p pairs)
  obtain k v where p: "p = (k, v)" by (cases p)
  with Cons.prems have "\<not> contains k ''->''" by simp
  from parse_value_item_pair[OF this] Cons p show ?case by simp
qed

lemma rstrip_prefix: "\<exists>u. t = rstrip t @ u"
  by (simp add: rstrip_def) (metis append_take_drop_id dropWhile_eq_drop rev_append rev_rev_ident)

lemma contains_rstrip:
  assumes "sep \<noteq> []" and "\<not> contains t sep"
  shows "\<not> contains (rstrip t) sep"
proof
  assume "contains (rstrip t) sep"
  then obtain a b where "rstrip t = a @ sep @ b" using assms(1) by (auto simp: contains_iff)
  moreover obtain u where "t = rstrip t @ u" using rstrip_prefix by blast
  ultimately have "t = a @ sep @ (b @ u)" by simp
  then have "contains t sep" using assms(1) by (subst contains_iff) auto
  with assms(2) show False ..
qed

lemma apply_transform_no_map:
  assumes "\<not> contains SRC ''->''" and "\<not> contains (strip DEST) ''(MAP:''"
  shows "apply_transform (SRC @ ''->'' @ DEST) mappings =
           AList.update (strip SRC) \<lparr>dest_field = strip DEST, value_maps = None\<rparr> mappings"
proof -
  have "find_split ''->'' (SRC @ ''->'' @ DEST) = Some (SRC, DEST)"
    using assms(1) by (rule find_split_arrow)
  moreover have "find_split ''(MAP:'' (strip DEST) = None"
    using assms(2) by (simp only: not_contains_iff)
  ultimately show ?thesis by (simp add: apply_transform_def)
qed

lemma apply_transform_map:
  assumes "\<not> contains SRC ''->''" and "\<not> contains D ''(MAP:''"
  shows "apply_transform (SRC @ ''->'' @ D @ ''(MAP:'' @ J @ '')'') mappings =
           AList.update (strip SRC)
             \<lparr>dest_field = strip D,
              value_maps = Some (fold parse_value_item (split_char CHR '','' J) [])\<rparr> mappings"
proof -
  have a: "find_split ''->'' (SRC @ ''->'' @ D @ ''(MAP:'' @ J @ '')'')
             = Some (SRC, D @ ''(MAP:'' @ J @ '')'')"
    using assms(1) by (rule find_split_arrow)
  have "lstrip (D @ ''(MAP:'' @ J @ '')'') = lstrip D @ ''(MAP:'' @ J @ '')''"
    using lstrip_append_nonspace[OF not_space_arrow(3), of D "''MAP:'' @ J @ '')''"] by simp
  moreover have "rstrip (lstrip D @ ''(MAP:'' @ J @ '')'') = lstrip D @ ''(MAP:'' @ J @ '')''"
    using rstrip_append_nonspace[OF not_space_arrow(4), of "lstrip D @ ''(MAP:'' @ J" "[]"] by simp
  ultimately have s: "strip (D @ ''(MAP:'' @ J @ '')'') = lstrip D @ ''(MAP:'' @ J @ '')''"
    by (simp add: strip_def)
  have "\<not> contains (lstrip D) ''(MAP:''" using assms(2) by (intro contains_lstrip) simp_all
  then have b: "find_split ''(MAP:'' (lstrip D @ ''(MAP:'' @ J @ '')'') = Some (lstrip D, J @ '')'')"
    by (rule find_split_MAP)
  have e: "endswith (J @ '')'') '')''" by (simp add: endswith_iff)
  show ?thesis
    by (simp add: apply_transform_def a s b e fold_parse_value_item_strip del: append.simps)
qed

lemma apply_transform_strip: "apply_transform (strip t) mappings = apply_transform t mappings"
proof (cases "find_split ''->'' t")
  case None
  then have "\<not> contains t ''->''" by (simp only: not_contains_iff)
  then have "\<not> contains (lstrip t) ''->''" by (intro contains_lstrip) simp_all
  then have "\<not> contains (strip t) ''->''" unfolding strip_def by (intro contains_rstrip) simp_all
  then have "find_split ''->'' (strip t) = None" by (simp only: not_contains_iff)
  with None show ?thesis by (simp add: apply_transform_def)
next
  case (Some p)
  obtain a b where p: "p = (a, b)" by (cases p)
  from Some p have t: "t = a @ ''->'' @ b" by (auto dest: find_split_Some)
  from Some p have "\<not> contains a ''->''" by (intro find_split_prefix_free[of _ t a b]) simp_all
  then have "\<not> contains (lstrip a) ''->''" by (intro contains_lstrip) simp_all
  then have "find_split ''->'' (lstrip a @ ''->'' @ rstrip b) = Some (lstrip a, rstrip b)"
    by (rule find_split_arrow)
  moreover have "strip t = lstrip a @ ''->'' @ rstrip b"
    unfolding t strip_def lstrip_arrow rstrip_arrow ..
  ultimately show ?thesis using Some p by (simp add: apply_transform_def)
qed

lemma fold_split_step_no_comma:
  "CHR '','' \<notin> set s \<Longrightarrow> \<exists>d'. fold split_step s (ts, temp, d) = (ts, temp @ s, d')"
proof (induction s arbitrary: temp d)
  case Nil
  then show ?case by simp
next
  case (Cons c s)
  then have c: "c \<noteq> CHR '',''" and s: "CHR '','' \<notin> set s" by auto
  from c obtain d0 where "split_step c (ts, temp, d) = (ts, temp @ [c], d0)"
    by (simp add: split_step_def Let_def)
  moreover from Cons.IH[OF s, of "temp @ [c]" d0] obtain d'
    where "fold split_step s (ts, temp @ [c], d0) = (ts, (temp @ [c]) @ s, d')" by blast
  ultimately show ?case by simp
qed

lemma process_transformations_no_comma:
  assumes "CHR '','' \<notin> set s" and "s \<noteq> []"
  shows "process_transformations (PStr s) = apply_transform s []"
proof -
  from fold_split_step_no_comma[OF assms(1), of "[]" "[]" 0] obtain d'
    where "fold split_step s ([], [], 0) = ([], s, d')" by auto
  with assms(2) have "split_transformations s = [strip s]"
    by (simp add: split_transformations_def)
  with assms(2) show ?thesis by (simp add: apply_transform_strip)
qed

text \<open>
  The clause step on its own: a clause without a \<open>(MAP:\<close> part, a clause with a list of
  pairs handed over in one piece (every leading and trailing quote of a key or value is
  removed), and the parser on a text without a comma.
\<close>

lemma apply_transform_clause:
  "(\<not> contains SRC ''->'' \<and> \<not> contains (strip DEST) ''(MAP:'' \<longrightarrow>
      apply_transform (SRC @ ''->'' @ DEST) mappings =
        AList.update (strip SRC) \<lparr>dest_field = strip DEST, value_maps = None\<rparr> mappings)
   \<and> (\<not> contains SRC ''->'' \<and> \<not> contains D ''(MAP:'' \<and> pairs \<noteq> []
        \<and> (\<forall>p\<in>set pairs. CHR '','' \<notin> set (fst p) \<and> CHR '','' \<notin> set (snd p)
                            \<and> \<not> contains (fst p) ''->'') \<longrightarrow>
      apply_transform
          (SRC @ ''->'' @ D @ ''(MAP:'' @ join '','' (map (\<lambda>(k, v). k @ ''->'' @ v) pairs) @ '')'')
          mappings =
        AList.update (strip SRC)
          \<lparr>dest_field = strip D,
           value_maps = Some (fold (\<lambda>(k, v).
               AList.update (strip_chars (strip k) [CHR 0x27, CHR 0x22])
                            (strip_chars (strip v) [CHR 0x27, CHR 0x22])) pairs [])\<rparr> mappings)
   \<and> (CHR '','' \<notin> set s \<and> s \<noteq> [] \<longrightarrow>
        process_transformations (PStr s) = apply_transform s [])"
proof (intro conjI impI)
  assume "\<not> contains SRC ''->'' \<and> \<not> contains (strip DEST) ''(MAP:''"
  then show "apply_transform (SRC @ ''->'' @ DEST) mappings =
        AList.update (strip SRC) \<lparr>dest_field = strip DEST, value_maps = None\<rparr> mappings"
    using apply_transform_no_map[of SRC DEST mappings] by blast
next
  assume h: "\<not> contains SRC ''->'' \<and> \<not> contains D ''(MAP:'' \<and> pairs \<noteq> []
        \<and> (\<forall>p\<in>set pairs. CHR '','' \<notin> set (fst p) \<and> CHR '','' \<notin> set (snd p)
                            \<and> \<not> contains (fst p) ''->'')"
  let ?items = "map (\<lambda>(k, v). k @ ''->'' @ v) pairs"
  from h have "?items \<noteq> []" by simp
  moreover from h have "\<forall>x\<in>set ?items. CHR '','' \<notin> set x" by auto
  ultimately have "split_char CHR '','' (join '','' ?items) = ?items" by (rule split_char_join)
  moreover from h have "\<forall>p\<in>set pairs. \<not> contains (fst p) ''->''" by blast
  ultimately have f: "fold parse_value_item (split_char CHR '','' (join '','' ?items)) [] =
      fold (\<lambda>(k, v). AList.update (strip_chars (strip k) [CHR 0x27, CHR 0x22])
                                  (strip_chars (strip v) [CHR 0x27, CHR 0x22])) pairs []"
    by (simp only: fold_parse_value_item_pairs)
  from h have nc: "\<not> contains SRC ''->''" "\<not> contains D ''(MAP:''" by blast+
  show "apply_transform
          (SRC @ ''->'' @ D @ ''(MAP:'' @ join '','' (map (\<lambda>(k, v). k @ ''->'' @ v) pairs) @ '')'')
          mappings =
        AList.update (strip SRC)
          \<lparr>dest_field = strip D,
           value_maps = Some (fold (\<lambda>(k, v).
               AList.update (strip_chars (strip k) [CHR 0x27, CHR 0x22])
                            (strip_chars (strip v) [CHR 0x27, CHR 0x22])) pairs [])\<rparr> mappings"
    unfolding apply_transform_map[OF nc] f ..
next
  assume "CHR '','' \<notin> set s \<and> s \<noteq> []"
  then show "process_transformations (PStr s) = apply_transform s []"
    using process_transformations_no_comma[of s] by blast
qed


text \<open>All the quotes around a key are removed, not one layer of them.\<close>

lemma quotes_all_layers_stripped:
  "process_transformations (PStr (''A->B(MAP: '' @ [CHR 0x27, CHR 0x27] @ ''x''
        @ [CHR 0x27, CHR 0x27] @ ''->1)'')) =
     [(''A'', \<lparr>dest_field = ''B'', value_maps = Some [(''x'', ''1'')]\<rparr>)]
   \<and> spec_strip_one_quote_layer (strip ('' '' @ [CHR 0x27, CHR 0x27] @ ''x'' @ [CHR 0x27, CHR 0x27]))
       = [CHR 0x27] @ ''x'' @ [CHR 0x27]
   \<and> [CHR 0x27] @ ''x'' @ [CHR 0x27] \<noteq> ''x''"
  by (simp add: split_transformations_def split_step_def contains_def apply_transform_def
        parse_value_item_def strip_def lstrip_def rstrip_def isspace_def strip_chars_def
        endswith_def Let_def spec_strip_one_quote_layer_def)


text \<open>
  Claim C4. For a clause \<open>SRC->DEST(MAP: ...)\<close> each comma-separated pair of the \<open>MAP\<close> part is
  to enter the value map of \<open>SRC\<close>. The splitter (its comment: split by comma outside of
  MAP expressions) tests \<open>'MAP:' in temp\<close> when the \<open>(\<close> of \<open>(MAP:\<close> is read, before \<open>MAP:\<close> has
  been added to \<open>temp\<close>; the counter stays at zero and the comma between the pairs ends
  the clause. For the clause of the sample mapping file the value map of \<open>STATUS\<close> gets
  the first pair only, and the second pair becomes a clause of its own with the source
  field \<open>'I'\<close> and the destination \<open>0)\<close>.
\<close>

theorem map_clause_cut_at_inner_comma:
  "split_transformations ''STATUS->STATUS_CODE (MAP: 'A'->1,'I'->0)'' =
     [''STATUS->STATUS_CODE (MAP: 'A'->1'', [CHR 0x27] @ ''I'' @ [CHR 0x27] @ ''->0)'']
   \<and> process_transformations (PStr ''STATUS->STATUS_CODE (MAP: 'A'->1,'I'->0)'') =
     [(''STATUS'', \<lparr>dest_field = ''STATUS_CODE'', value_maps = Some [(''A'', ''1'')]\<rparr>),
      ([CHR 0x27] @ ''I'' @ [CHR 0x27], \<lparr>dest_field = ''0)'', value_maps = None\<rparr>)]"
  by (simp add: split_transformations_def split_step_def contains_def apply_transform_def
        parse_value_item_def strip_def lstrip_def rstrip_def isspace_def strip_chars_def
        endswith_def Let_def)

section \<open>Table names and file names\<close>

text \<open>A table field that is present is used as it is, also when it is empty or blank;
  the placeholders stand in for absent fields only.\<close>

lemma blank_table_names_kept:
  "strip '''' = [] \<and> strip ''  '' = []
   \<and> (\<exists>s. generate_script [''source_table'' \<mapsto> PStr '''', ''target_table'' \<mapsto> PStr ''  '']
              = Inr s
          \<and> sc_source_table s = PStr '''' \<and> sc_target_table s = ''  '')"
  by (simp add: generate_script_def Let_def get_def strip_def lstrip_def rstrip_def isspace_def)

lemma table_name_defaults:
  assumes "\<forall>text truth. item ''target_table'' \<noteq> Some (PObj text truth)"
  shows "\<exists>s. generate_script item = Inr s
           \<and> sc_source_table s =
               (case item ''source_table'' of None \<Rightarrow> PStr ''unknown_source'' | Some v \<Rightarrow> v)
           \<and> sc_target_table s =
               (case item ''target_table'' of None \<Rightarrow> ''unknown_target'' | Some v \<Rightarrow> py_str v)"
proof -
  obtain t where t: "get item ''target_table'' (PStr ''unknown_target'') = PStr t"
    and t': "t = (case item ''target_table'' of None \<Rightarrow> ''unknown_target'' | Some v \<Rightarrow> py_str v)"
  proof (cases "item ''target_table''")
    case None
    then show ?thesis using that by (simp add: get_def)
  next
    case (Some v)
    with assms obtain x where "v = PStr x" by (cases v) auto
    with Some show ?thesis using that by (simp add: get_def)
  qed
  from generate_script_PStr[OF t] obtain s where s: "generate_script item = Inr s"
    "sc_source_table s = get item ''source_table'' (PStr ''unknown_source'')"
    "sc_target_table s = t" by blast
  have "sc_source_table s =
      (case item ''source_table'' of None \<Rightarrow> PStr ''unknown_source'' | Some v \<Rightarrow> v)"
    using s(2) by (simp add: get_def)
  with s t' show ?thesis by auto
qed

text \<open>
  Claim C2. A row whose source or target table is empty gets a placeholder name, and
  generating its unit never raises. A row read from a CSV or Excel file has, for an empty
  cell, a NaN and not a string (the column lists and the two parsers test for that with
  \<open>isinstance\<close>; the table names do not). With such a target table, \<open>target_table.lower()\<close>
  raises \<open>AttributeError\<close>; with such a source table the unit is generated, with the text
  \<open>nan\<close> as table name, and \<open>re.sub\<close> raises \<open>TypeError\<close> when the file is named.
\<close>

theorem empty_cell_table_name_raises:
  "generate_script [''source_table'' \<mapsto> PStr ''A'', ''target_table'' \<mapsto> PObj ''nan'' True]
     = Inl AttributeError
   \<and> generate_fallback_code (\<lambda>path. True) ''20240101_000000''
        [[''source_table'' \<mapsto> PStr ''A'', ''target_table'' \<mapsto> PObj ''nan'' True]]
     = Inl AttributeError
   \<and> (\<exists>s. generate_script [''source_table'' \<mapsto> PObj ''nan'' True, ''target_table'' \<mapsto> PStr ''B'']
             = Inr s
          \<and> sc_source_table s = PObj ''nan'' True
          \<and> save_script (\<lambda>path. True) ''20240101_000000'' s = Inl TypeError)
   \<and> generate_fallback_code (\<lambda>path. True) ''20240101_000000''
        [[''source_table'' \<mapsto> PObj ''nan'' True, ''target_table'' \<mapsto> PStr ''B'']]
     = Inl TypeError"
  by (simp add: generate_fallback_code_def build_scripts_def generate_script_def Let_def get_def
        save_script_def)









section \<open>The values of the insert statement\<close>

lemma insert_values_nth:
  assumes "i < length source_columns" and "i < length target_columns"
  shows "insert_values transformations source_columns target_columns ! i =
           ''          '' @ value_expression transformations (strip (source_columns ! i))
           @ (if i + 1 < length target_columns then '','' else []) @ ''\<newline>''"
    and "i < length (insert_values transformations source_columns target_columns)"
proof -
  from assms have "i < length (take (length target_columns) source_columns)" by simp
  then show "insert_values transformations source_columns target_columns ! i =
           ''          '' @ value_expression transformations (strip (source_columns ! i))
           @ (if i + 1 < length target_columns then '','' else []) @ ''\<newline>''"
    using assms by (simp add: insert_values_eq nth_enumerate_eq del: length_take)
  from assms show "i < length (insert_values transformations source_columns target_columns)"
    by (simp add: insert_lists_lengths)
qed

lemma concat_split_nth:
  "i < length xs \<Longrightarrow> concat xs = concat (take i xs) @ xs ! i @ concat (drop (Suc i) xs)"
  by (metis concat.simps(2) concat_append id_take_nth_drop)

text \<open>The code of a unit is the text before the insert statement, the insert statement
  and the text after it.\<close>

lemma generate_script_code:
  assumes "get item ''target_table'' (PStr ''unknown_target'') = PStr target"
  shows "\<exists>s pre post. generate_script item = Inr s
     \<and> sc_code s = pre
         @ ''        INSERT INTO '' @ target @ '' (\<newline>''
         @ concat (insert_columns
             (resolve_target_columns item
                (process_transformations (get item ''transformations'' (PStr [])))
                (resolve_source_columns item)))
         @ ''        ) VALUES (\<newline>''
         @ concat (insert_values
             (process_transformations (get item ''transformations'' (PStr [])))
             (resolve_source_columns item)
             (resolve_target_columns item
                (process_transformations (get item ''transformations'' (PStr [])))
                (resolve_source_columns item)))
         @ ''        );\<newline>'' @ post"
proof -
  let ?tr = "process_transformations (get item ''transformations'' (PStr []))"
  let ?src = "resolve_source_columns item"
  let ?tgt = "resolve_target_columns item ?tr ?src"
  have "insert_statement target ?src ?tgt ?tr =
      (''      -- Now, insert into the main target table\<newline>''
       @ ''      FORALL i IN 1..v_source_data.COUNT\<newline>'')
      @ ''        INSERT INTO '' @ target @ '' (\<newline>''
      @ concat (insert_columns ?tgt) @ ''        ) VALUES (\<newline>''
      @ concat (insert_values ?tr ?src ?tgt) @ ''        );\<newline>''"
    by (simp add: insert_statement_def)
  then show ?thesis
    using assms
    by (simp add: generate_script_def Let_def unit_code_def del: append.simps)
       (metis append.assoc)
qed

text \<open>
  A source column behind the last target column is not written to the insert statement,
  whatever its transform. In the row below the column \<open>B\<close> has a value map; the insert
  statement has the one value for \<open>A\<close> and no \<open>CASE\<close>.
\<close>

lemma unwritten_column_has_no_case:
  "resolve_source_columns [''source_columns'' \<mapsto> PStr ''A,B'', ''target_columns'' \<mapsto> PStr ''X'',
       ''transformations'' \<mapsto> PStr ''B->Y(MAP: 'a'->1)''] = [''A'', ''B'']
   \<and> map_of (process_transformations (PStr ''B->Y(MAP: 'a'->1)'')) ''B''
       = Some \<lparr>dest_field = ''Y'', value_maps = Some [(''a'', ''1'')]\<rparr>
   \<and> resolve_target_columns [''source_columns'' \<mapsto> PStr ''A,B'', ''target_columns'' \<mapsto> PStr ''X'',
       ''transformations'' \<mapsto> PStr ''B->Y(MAP: 'a'->1)'']
         (process_transformations (PStr ''B->Y(MAP: 'a'->1)'')) [''A'', ''B''] = [''X'']
   \<and> insert_statement ''T'' [''A'', ''B''] [''X''] (process_transformations (PStr ''B->Y(MAP: 'a'->1)''))
       = ''      -- Now, insert into the main target table\<newline>      FORALL i IN 1..v_source_data.COUNT\<newline>        INSERT INTO T (\<newline>          X\<newline>        ) VALUES (\<newline>          v_source_data(i).A\<newline>        );\<newline>''"
  by (simp add: resolve_source_columns_def resolve_target_columns_def get_def clean_columns_def
        split_transformations_def split_step_def contains_def apply_transform_def
        parse_value_item_def strip_def lstrip_def rstrip_def isspace_def strip_chars_def
        endswith_def Let_def insert_statement_def insert_columns_def insert_values_def
        insert_value_def value_expression_def enumerate_eq_zip)

text \<open>
  What the generator does with the value map that the parser hands over. For every
  source column of a row that is written to the insert statement (its index is below the
  number of target columns), the code of the unit holds, at the place of that column in
  the \<open>VALUES\<close> list, this entry: when the transform that the parser gave the column has a
  value map, a \<open>CASE\<close> expression on the source column with one \<open>WHEN 'key' THEN value\<close>
  branch for each entry of the map, in the order of the map, and an \<open>ELSE\<close> branch that
  gives the source column itself; otherwise the source column itself.
\<close>

lemma insert_case_expression:
  assumes "get item ''target_table'' (PStr ''unknown_target'') = PStr target"
    and "transformations = process_transformations (get item ''transformations'' (PStr []))"
    and "source_columns = resolve_source_columns item"
    and "target_columns = resolve_target_columns item transformations source_columns"
    and "i < length source_columns" and "i < length target_columns"
    and "src_col = strip (source_columns ! i)"
  shows "\<exists>s pre post. generate_script item = Inr s
           \<and> sc_code s = pre @ ''        ) VALUES (\<newline>''
               @ concat (take i (insert_values transformations source_columns target_columns))
               @ ''          ''
               @ (case map_of transformations src_col of
                  None \<Rightarrow> ''v_source_data(i).'' @ src_col
                | Some t \<Rightarrow>
                    (case value_maps t of
                       None \<Rightarrow> ''v_source_data(i).'' @ src_col
                     | Some vmap \<Rightarrow>
                         ''CASE v_source_data(i).'' @ src_col @ ''\<newline>''
                         @ concat (map (\<lambda>(src_val, dest_val).
                             ''            WHEN '' @ [CHR 0x27] @ src_val @ [CHR 0x27]
                             @ '' THEN '' @ dest_val @ ''\<newline>'') vmap)
                         @ ''            ELSE v_source_data(i).'' @ src_col
                         @ ''\<newline>          END''))
               @ (if i + 1 < length target_columns then '','' else []) @ ''\<newline>''
               @ concat (drop (Suc i) (insert_values transformations source_columns target_columns))
               @ ''        );\<newline>'' @ post"
proof -
  let ?vals = "insert_values transformations source_columns target_columns"
  from generate_script_code[OF assms(1)] obtain s pre0 post where
    s: "generate_script item = Inr s"
    and c: "sc_code s = pre0 @ ''        INSERT INTO '' @ target @ '' (\<newline>''
         @ concat (insert_columns target_columns) @ ''        ) VALUES (\<newline>''
         @ concat ?vals @ ''        );\<newline>'' @ post"
    unfolding assms(2,3,4) by blast
  have e: "value_expression transformations src_col = (case map_of transformations src_col of
                  None \<Rightarrow> ''v_source_data(i).'' @ src_col
                | Some t \<Rightarrow>
                    (case value_maps t of
                       None \<Rightarrow> ''v_source_data(i).'' @ src_col
                     | Some vmap \<Rightarrow>
                         ''CASE v_source_data(i).'' @ src_col @ ''\<newline>''
                         @ concat (map (\<lambda>(src_val, dest_val).
                             ''            WHEN '' @ [CHR 0x27] @ src_val @ [CHR 0x27]
                             @ '' THEN '' @ dest_val @ ''\<newline>'') vmap)
                         @ ''            ELSE v_source_data(i).'' @ src_col
                         @ ''\<newline>          END''))"
    by (simp add: value_expression_def case_expression_def split: option.splits)
  have "concat ?vals = concat (take i ?vals) @ ?vals ! i @ concat (drop (Suc i) ?vals)"
    using insert_values_nth(2)[OF assms(5,6)] by (rule concat_split_nth)
  also have "?vals ! i = ''          '' @ value_expression transformations src_col
           @ (if i + 1 < length target_columns then '','' else []) @ ''\<newline>''"
    unfolding assms(7) using assms(5,6) by (rule insert_values_nth(1))
  finally have v: "concat ?vals = concat (take i ?vals) @ ''          ''
      @ value_expression transformations src_col
      @ (if i + 1 < length target_columns then '','' else []) @ ''\<newline>''
      @ concat (drop (Suc i) ?vals)" by simp
  have "sc_code s = (pre0 @ ''        INSERT INTO '' @ target @ '' (\<newline>''
         @ concat (insert_columns target_columns)) @ ''        ) VALUES (\<newline>''
         @ concat (take i ?vals) @ ''          ''
         @ value_expression transformations src_col
         @ (if i + 1 < length target_columns then '','' else []) @ ''\<newline>''
         @ concat (drop (Suc i) ?vals) @ ''        );\<newline>'' @ post"
    unfolding c v by simp
  with s show ?thesis unfolding e by blast
qed

text \<open>A clause with one pair, in a row with two columns.\<close>

lemma insert_case_expression_example:
  "\<exists>s pre post. generate_script
       [''source_table'' \<mapsto> PStr ''C_OLD'', ''target_table'' \<mapsto> PStr ''C_NEW'',
      ''source_columns'' \<mapsto> PStr ''ID,STATUS'', ''target_columns'' \<mapsto> PStr ''ID,STATUS_CODE'',
      ''transformations'' \<mapsto> PStr ''STATUS->STATUS_CODE (MAP: 'A'->1)''] = Inr s
     \<and> sc_code s = pre @ ''        ) VALUES (\<newline>          v_source_data(i).ID,\<newline>          CASE v_source_data(i).STATUS\<newline>            WHEN 'A' THEN 1\<newline>            ELSE v_source_data(i).STATUS\<newline>          END\<newline>        );\<newline>'' @ post"
proof -
  let ?row = \<open>[''source_table'' \<mapsto> PStr ''C_OLD'', ''target_table'' \<mapsto> PStr ''C_NEW'',
      ''source_columns'' \<mapsto> PStr ''ID,STATUS'', ''target_columns'' \<mapsto> PStr ''ID,STATUS_CODE'',
      ''transformations'' \<mapsto> PStr ''STATUS->STATUS_CODE (MAP: 'A'->1)'']\<close>
  let ?tr = \<open>[(''STATUS'', \<lparr>dest_field = ''STATUS_CODE'', value_maps = Some [(''A'', ''1'')]\<rparr>)]\<close>
  have a1: "get ?row ''target_table'' (PStr ''unknown_target'') = PStr ''C_NEW''"
    by (simp add: get_def)
  have a2: "?tr = process_transformations (get ?row ''transformations'' (PStr []))"
    by (simp add: get_def split_transformations_def split_step_def contains_def
          apply_transform_def parse_value_item_def strip_def lstrip_def rstrip_def isspace_def
          strip_chars_def endswith_def Let_def)
  have a3: "[''ID'', ''STATUS''] = resolve_source_columns ?row"
    by (simp add: resolve_source_columns_def get_def clean_columns_def strip_def lstrip_def
          rstrip_def isspace_def)
  have a4: "[''ID'', ''STATUS_CODE''] = resolve_target_columns ?row ?tr [''ID'', ''STATUS'']"
    by (simp add: resolve_target_columns_def get_def clean_columns_def strip_def lstrip_def
          rstrip_def isspace_def)
  have a5: "(1::nat) < length [''ID'', ''STATUS'']" and a6: "(1::nat) < length [''ID'', ''STATUS_CODE'']"
    by simp_all
  have a7: "''STATUS'' = strip ([''ID'', ''STATUS''] ! 1)"
    by (simp add: strip_def lstrip_def rstrip_def isspace_def)
  from insert_case_expression[OF a1 a2 a3 a4 a5 a6 a7] show ?thesis
    by (simp add: insert_values_def insert_value_def value_expression_def enumerate_eq_zip
          strip_def lstrip_def rstrip_def isspace_def)
qed


end
